theory Spec2Isabelle
  imports Main "HOL-Library.Sublist"
begin

section \<open>Failures\<close>

text \<open>
  Everything that can be thrown or delivered as a promise rejection in the program.
  \<open>TimeoutError\<close> is the class declared in the source (its argument is the message);
  \<open>AbortError\<close> is the reason an \<open>AbortController\<close> carries when \<open>abort()\<close> is
  called without an argument; \<open>NetworkError\<close> is a failure of the transport itself;
  \<open>TypeError\<close> is what \<open>Response.clone()\<close> raises on a response whose body was read;
  \<open>Thrown\<close> is any other value thrown by a user supplied middleware function.
\<close>

datatype err =
    AbortError
  | TimeoutError string
  | NetworkError string
  | TypeError string
  | Thrown string

section \<open>MwManager.ts: the middleware manager\<close>

text \<open>
  A handler entry \<open>{fulfilled, rejected?, id}\<close>. A function that may throw (or return a
  rejected promise, which \<open>await\<close> turns into a throw) returns \<open>err + 'a\<close>, \<open>Inl\<close> being
  the throw. The field \<open>id\<close> is called \<open>handler_id\<close> here, \<open>id\<close> being the identity
  function of HOL.
\<close>

record 'a handler =
  fulfilled :: "'a \<Rightarrow> err + 'a"
  rejected :: "(err \<Rightarrow> err + 'a) option"
  handler_id :: nat

record 'a MiddlewareManager =
  handlers :: "'a handler list"
  idCounter :: nat

text \<open>The field initialisers of the class: \<open>handlers = []\<close>, \<open>idCounter = 0\<close>.\<close>

definition new_MiddlewareManager :: "'a MiddlewareManager" where
  "new_MiddlewareManager = \<lparr>handlers = [], idCounter = 0\<rparr>"

text \<open>\<open>use\<close>: \<open>const id = this.idCounter++; this.handlers.push({...}); return id\<close>.\<close>

definition use :: "('a \<Rightarrow> err + 'a) \<Rightarrow> (err \<Rightarrow> err + 'a) option \<Rightarrow> 'a MiddlewareManager
    \<Rightarrow> nat \<times> 'a MiddlewareManager" where
  "use f r m =
     (let i = idCounter m in
      (i, \<lparr>handlers = handlers m @ [\<lparr>fulfilled = f, rejected = r, handler_id = i\<rparr>],
           idCounter = Suc (idCounter m)\<rparr>))"

text \<open>\<open>Array.prototype.findIndex\<close>; the result \<open>-1\<close> of the source is \<open>None\<close>.\<close>

fun findIndex :: "('a \<Rightarrow> bool) \<Rightarrow> 'a list \<Rightarrow> nat option" where
  "findIndex p [] = None"
| "findIndex p (x # xs) =
     (if p x then Some 0 else map_option Suc (findIndex p xs))"

text \<open>\<open>xs.splice(index, 1)\<close>: removes the one element at \<open>index\<close>.\<close>

definition splice1 :: "nat \<Rightarrow> 'a list \<Rightarrow> 'a list" where
  "splice1 index xs = take index xs @ drop (Suc index) xs"

definition eject :: "nat \<Rightarrow> 'a MiddlewareManager \<Rightarrow> 'a MiddlewareManager" where
  "eject i m =
     (case findIndex (\<lambda>h. handler_id h = i) (handlers m) of
        Some index \<Rightarrow> m\<lparr>handlers := splice1 index (handlers m)\<rparr>
      | None \<Rightarrow> m)"

definition clear :: "'a MiddlewareManager \<Rightarrow> 'a MiddlewareManager" where
  "clear m = m\<lparr>handlers := []\<rparr>"

text \<open>
  The calls a run makes to the functions of its handlers, in the order it makes them:
  \<open>Fulfilled i\<close> is a call of \<open>handler.fulfilled\<close> of the handler with id \<open>i\<close>,
  \<open>Rejected i\<close> a call of its \<open>handler.rejected\<close>.
\<close>

datatype mw_call = Fulfilled nat | Rejected nat

text \<open>
  One iteration of the loop of \<open>runMiddlewares\<close>: the \<open>try\<close> block calls
  \<open>fulfilled\<close>; the \<open>catch\<close> block calls \<open>rejected\<close> when it is there and rethrows
  otherwise. A throw of \<open>rejected\<close> itself happens inside the \<open>catch\<close> block, so nothing
  catches it. The first component of the result lists the calls made.
\<close>

definition runHandler :: "'a handler \<Rightarrow> 'a \<Rightarrow> mw_call list \<times> (err + 'a)" where
  "runHandler h result =
     (case fulfilled h result of
        Inr v \<Rightarrow> ([Fulfilled (handler_id h)], Inr v)
      | Inl error \<Rightarrow>
          (case rejected h of
             Some r \<Rightarrow> ([Fulfilled (handler_id h), Rejected (handler_id h)], r error)
           | None \<Rightarrow> ([Fulfilled (handler_id h)], Inl error)))"

text \<open>
  The loop \<open>for (const handler of this.handlers)\<close> over the handler list, started with
  \<open>result = value\<close>; a throw leaves the loop and the function.
\<close>

fun runLoop :: "'a handler list \<Rightarrow> 'a \<Rightarrow> mw_call list \<times> (err + 'a)" where
  "runLoop [] result = ([], Inr result)"
| "runLoop (h # hs) result =
     (case runHandler h result of
        (cs, Inl error) \<Rightarrow> (cs, Inl error)
      | (cs, Inr v) \<Rightarrow> (case runLoop hs v of (cs', res) \<Rightarrow> (cs @ cs', res)))"

definition runMiddlewares :: "'a MiddlewareManager \<Rightarrow> 'a \<Rightarrow> mw_call list \<times> (err + 'a)" where
  "runMiddlewares m v = runLoop (handlers m) v"

subsection \<open>Sequences of registrations and removals\<close>

text \<open>
  A client program drives a manager by a sequence of \<open>use\<close> and \<open>eject\<close> calls;
  \<open>apply_ops\<close> performs such a sequence from left to right.
\<close>

datatype 'a mw_op = Use "'a \<Rightarrow> err + 'a" "(err \<Rightarrow> err + 'a) option" | Eject nat

fun apply_op :: "'a mw_op \<Rightarrow> 'a MiddlewareManager \<Rightarrow> 'a MiddlewareManager" where
  "apply_op (Use f r) m = snd (use f r m)"
| "apply_op (Eject i) m = eject i m"

definition apply_ops :: "'a mw_op list \<Rightarrow> 'a MiddlewareManager \<Rightarrow> 'a MiddlewareManager" where
  "apply_ops ops m = fold apply_op ops m"

text \<open>
  The specification's reading of such a sequence, independent of the code: the handlers
  registered by the \<open>Use\<close> operations, in the order of registration, numbered from \<open>n\<close>
  upwards, without those whose id is removed by a later \<open>Eject\<close>.
\<close>

fun ejected :: "'a mw_op list \<Rightarrow> nat list" where
  "ejected [] = []"
| "ejected (Use f r # ops) = ejected ops"
| "ejected (Eject i # ops) = i # ejected ops"

fun remaining :: "nat \<Rightarrow> 'a mw_op list \<Rightarrow> 'a handler list" where
  "remaining n [] = []"
| "remaining n (Use f r # ops) =
     (if n \<in> set (ejected ops) then [] else [\<lparr>fulfilled = f, rejected = r, handler_id = n\<rparr>])
       @ remaining (Suc n) ops"
| "remaining n (Eject i # ops) = remaining n ops"

text \<open>The ids of the handlers whose \<open>fulfilled\<close> function a run called, in call order.\<close>

fun transforms :: "mw_call list \<Rightarrow> nat list" where
  "transforms [] = []"
| "transforms (Fulfilled i # cs) = i # transforms cs"
| "transforms (Rejected i # cs) = transforms cs"

text \<open>
  The invariant of a manager: ids are pairwise different and below the counter.
\<close>

definition ids_ok :: "'a MiddlewareManager \<Rightarrow> bool" where
  "ids_ok m \<longleftrightarrow>
     distinct (map handler_id (handlers m)) \<and> (\<forall>h \<in> set (handlers m). handler_id h < idCounter m)"

section \<open>The request description and the response\<close>

datatype HttpMethod = GET | POST | PUT | DELETE

text \<open>
  A query parameter value, \<open>string | number | boolean\<close>. Numbers are integers here; the
  source's floating point numbers that are not integers are outside this model.
\<close>

datatype scalar = PString string | PNumber int | PBoolean bool

text \<open>The type \<open>boolean | number\<close> of the cache directive and of the argument of \<open>cache()\<close>.\<close>

datatype bool_or_number = B bool | N int

text \<open>
  The interface \<open>Request\<close>. \<open>headers\<close> and \<open>params\<close> are objects, kept as the list of
  their entries in property enumeration order (the order \<open>JSON.stringify\<close> and
  \<open>Object.entries\<close> follow); \<open>data\<close> is \<open>None\<close> for \<open>null\<close>; an optional field is \<open>None\<close>
  when it is \<open>undefined\<close>. An \<open>AbortController\<close> is an object, modelled by its identity, a
  number; what has been aborted is kept in the state of the system below. The field
  \<open>method\<close> of the source is \<open>http_method\<close> here, the word being reserved.
\<close>

record Request =
  http_method :: HttpMethod
  url :: string
  data :: "string option"
  headers :: "(string \<times> string) list"
  params :: "(string \<times> scalar) list"
  cache :: "bool_or_number option"
  timeout :: "int option"
  abortController :: nat

text \<open>
  A \<open>Response\<close> of the Fetch API: an object with an identity (\<open>obj\<close>), whose body can be
  read once (\<open>bodyUsed\<close>). \<open>clone()\<close> is defined below.
\<close>

record Response =
  obj :: nat
  bodyUsed :: bool
  status :: int
  body :: string

record CacheEntry =
  response :: Response
  expires :: int

section \<open>Rendering numbers and the cache key\<close>

function show_nat :: "nat \<Rightarrow> string" where
  "show_nat n =
     (if n < 10 then [''0123456789'' ! n]
      else show_nat (n div 10) @ [''0123456789'' ! (n mod 10)])"
  by pat_completeness auto
termination
  by (relation "measure (\<lambda>n. n)") auto

declare show_nat.simps [simp del]

definition show_int :: "int \<Rightarrow> string" where
  "show_int i = (if i < 0 then ''-'' @ show_nat (nat (- i)) else show_nat (nat i))"

definition show_method :: "HttpMethod \<Rightarrow> string" where
  "show_method m = (case m of GET \<Rightarrow> ''GET'' | POST \<Rightarrow> ''POST'' | PUT \<Rightarrow> ''PUT'' | DELETE \<Rightarrow> ''DELETE'')"

text \<open>
  \<open>JSON.stringify\<close> on the \<open>params\<close> object, a built-in of the language and not part of
  the repository. Strings are quoted with the escapes of JSON: the quotation mark, the
  backslash, the short escapes of the control characters 8, 9, 10, 12 and 13, and
  \<open>\u00XX\<close> for the other characters below 32.
\<close>

definition hex_digit :: "nat \<Rightarrow> char" where
  "hex_digit n = ''0123456789abcdef'' ! n"

definition json_escape :: "char \<Rightarrow> string" where
  "json_escape c =
     (if c = CHR 0x22 then [CHR 0x5C, CHR 0x22]
      else if c = CHR 0x5C then [CHR 0x5C, CHR 0x5C]
      else if c = CHR 0x08 then [CHR 0x5C, CHR ''b'']
      else if c = CHR 0x09 then [CHR 0x5C, CHR ''t'']
      else if c = CHR 0x0A then [CHR 0x5C, CHR ''n'']
      else if c = CHR 0x0C then [CHR 0x5C, CHR ''f'']
      else if c = CHR 0x0D then [CHR 0x5C, CHR ''r'']
      else if (of_char c :: nat) < 32
        then [CHR 0x5C, CHR ''u'', CHR ''0'', CHR ''0'',
              hex_digit ((of_char c :: nat) div 16), hex_digit ((of_char c :: nat) mod 16)]
      else [c])"

definition json_string :: "string \<Rightarrow> string" where
  "json_string s = [CHR 0x22] @ concat (map json_escape s) @ [CHR 0x22]"

definition json_scalar :: "scalar \<Rightarrow> string" where
  "json_scalar v =
     (case v of
        PString s \<Rightarrow> json_string s
      | PNumber n \<Rightarrow> show_int n
      | PBoolean b \<Rightarrow> (if b then ''true'' else ''false''))"

fun join :: "string \<Rightarrow> string list \<Rightarrow> string" where
  "join sep [] = []"
| "join sep [x] = x"
| "join sep (x # y # ys) = x @ sep @ join sep (y # ys)"

definition JSON_stringify :: "(string \<times> scalar) list \<Rightarrow> string" where
  "JSON_stringify ps =
     ''{'' @ join '','' (map (\<lambda>(k, v). json_string k @ '':'' @ json_scalar v) ps) @ ''}''"

text \<open>
  \<open>_getCacheKey\<close> (an identifier cannot start with an underscore here):
  \<open>`${request.method}:${request.url}:${JSON.stringify(request.params)}`\<close>.
\<close>

definition getCacheKey :: "Request \<Rightarrow> string" where
  "getCacheKey request =
     show_method (http_method request) @ '':'' @ url request @ '':'' @ JSON_stringify (params request)"

text \<open>Truthiness of a value of type \<open>boolean | number | undefined\<close>.\<close>

fun truthy :: "bool_or_number option \<Rightarrow> bool" where
  "truthy None = False"
| "truthy (Some (B b)) = b"
| "truthy (Some (N n)) = (n \<noteq> 0)"

text \<open>
  The chainable method \<open>FluidFetchRequest.cache(ttl)\<close>, as a function on the request
  description it updates:
  \<open>this.request.cache = typeof ttl === 'boolean' ? 60 * 60 * 1000 : ttl\<close>.
\<close>

definition FluidFetchRequest_cache :: "bool_or_number \<Rightarrow> Request \<Rightarrow> Request" where
  "FluidFetchRequest_cache ttl request =
     request\<lparr>cache := Some (case ttl of B b \<Rightarrow> N (60 * 60 * 1000) | N n \<Rightarrow> N n)\<rparr>"

section \<open>The client and the runtime around it\<close>

text \<open>
  One execution of \<open>_executeRequest\<close> is an asynchronous function call. Between its
  suspension points it is, in turn: waiting at \<open>await fetch(...)\<close> for the transport
  (\<open>AwaitingFetch\<close>, with its locals \<open>request\<close> and \<open>cacheKey\<close>); past that point, the
  promise of the transport being settled with a response or a failure, and not yet at
  its end (\<open>FetchSettled\<close>: the call is to be resumed, or is inside the \<open>await\<close> of the
  response middleware); and finished, its own promise being fulfilled or rejected
  (\<open>Returned\<close>).
\<close>

datatype call =
    AwaitingFetch Request string
  | FetchSettled Request string "err + Response"
  | Returned "err + Response"

text \<open>
  What the program does to the world outside, in the order it does it: the calls of
  middleware functions of the request and of the response chain, \<open>abort(reason)\<close> on a
  controller, the two updates of the pending registry, and the invocation of the
  transport \<open>fetch\<close> by a call for a request.
\<close>

datatype event =
    RequestMw mw_call
  | ResponseMw mw_call
  | Abort nat err
  | Register string nat
  | Remove string
  | Fetch nat Request

text \<open>
  The state. The first four fields are the fields of the \<open>FluidFetch\<close> object (the maps
  \<open>cache\<close> and \<open>pendingRequests\<close> and the two managers of \<open>middlewares\<close>). The others are
  the runtime: \<open>aborted\<close> gives the reason of every controller that has been aborted;
  \<open>timers\<close> holds, for the call that armed it, the time at which a pending \<open>setTimeout\<close>
  is due and the request its callback closes over; \<open>calls\<close> are the executions of
  \<open>_executeRequest\<close>, by a number that identifies each; \<open>now\<close> is the clock
  (\<open>Date.now()\<close>); \<open>nextObj\<close> is the identity the next allocated \<open>Response\<close> gets.
\<close>

record system =
  cache :: "string \<rightharpoonup> CacheEntry"
  pendingRequests :: "string \<rightharpoonup> nat"
  middlewares_request :: "Request MiddlewareManager"
  middlewares_response :: "Response MiddlewareManager"
  aborted :: "nat \<rightharpoonup> err"
  timers :: "nat \<rightharpoonup> int \<times> Request"
  calls :: "nat \<rightharpoonup> call"
  trace :: "event list"
  now :: int
  nextObj :: nat

text \<open>The constructor of \<open>FluidFetch\<close>, in a runtime where nothing has happened yet.\<close>

definition new_FluidFetch :: "int \<Rightarrow> system" where
  "new_FluidFetch t =
     \<lparr>cache = Map.empty, pendingRequests = Map.empty,
      middlewares_request = new_MiddlewareManager,
      middlewares_response = new_MiddlewareManager,
      aborted = Map.empty, timers = Map.empty, calls = Map.empty, trace = [],
      now = t, nextObj = 0\<rparr>"

subsection \<open>Cache store and pending registry\<close>

text \<open>
  \<open>getCachedResponse\<close>: the entry's response when there is an entry and
  \<open>entry.expires > Date.now()\<close>; otherwise \<open>undefined\<close>, after deleting the entry when
  there is one.
\<close>

definition getCachedResponse :: "string \<Rightarrow> system \<Rightarrow> Response option \<times> system" where
  "getCachedResponse cacheKey s =
     (case cache s cacheKey of
        Some entry \<Rightarrow>
          (if expires entry > now s then (Some (response entry), s)
           else (None, s\<lparr>cache := (cache s)(cacheKey := None)\<rparr>))
      | None \<Rightarrow> (None, s))"

definition getPendingRequest :: "string \<Rightarrow> system \<Rightarrow> nat option" where
  "getPendingRequest cacheKey s = pendingRequests s cacheKey"

definition registerPendingRequest :: "string \<Rightarrow> nat \<Rightarrow> system \<Rightarrow> system" where
  "registerPendingRequest cacheKey controller s =
     s\<lparr>pendingRequests := (pendingRequests s)(cacheKey \<mapsto> controller),
       trace := trace s @ [Register cacheKey controller]\<rparr>"

definition removePendingRequest :: "string \<Rightarrow> system \<Rightarrow> system" where
  "removePendingRequest cacheKey s =
     s\<lparr>pendingRequests := (pendingRequests s)(cacheKey := None),
       trace := trace s @ [Remove cacheKey]\<rparr>"

text \<open>
  \<open>cacheResponse\<close>: \<open>duration = typeof ttl === 'number' ? ttl : 3600000\<close>, and the entry
  expires at \<open>Date.now() + duration\<close>.
\<close>

definition cacheResponse :: "string \<Rightarrow> Response \<Rightarrow> int option \<Rightarrow> system \<Rightarrow> system" where
  "cacheResponse cacheKey resp ttl s =
     (let duration = (case ttl of Some n \<Rightarrow> n | None \<Rightarrow> 3600000);
          entry = \<lparr>response = resp, expires = now s + duration\<rparr>
      in s\<lparr>cache := (cache s)(cacheKey \<mapsto> entry)\<rparr>)"

subsection \<open>The platform: responses, controllers, the transport, timers\<close>

text \<open>
  \<open>Response.clone()\<close>: a new object with the same content; it throws a \<open>TypeError\<close>
  when the body has been read.
\<close>

definition clone :: "Response \<Rightarrow> system \<Rightarrow> (err + Response) \<times> system" where
  "clone r s =
     (if bodyUsed r then (Inl (TypeError ''Response body is already used''), s)
      else (Inr (r\<lparr>obj := nextObj s\<rparr>), s\<lparr>nextObj := Suc (nextObj s)\<rparr>))"

text \<open>
  \<open>controller.abort(reason)\<close>. On a controller that is already aborted nothing changes.
  Otherwise the reason is recorded, and the transport, which was given the controller's
  signal, rejects with that reason the promise of every call that waits for it on this
  signal: this is the contract of \<open>fetch\<close> with an abort signal, the transport being
  outside the repository.
\<close>

definition reject_waiting :: "nat \<Rightarrow> err \<Rightarrow> call \<Rightarrow> call" where
  "reject_waiting controller reason cl =
     (case cl of
        AwaitingFetch request cacheKey \<Rightarrow>
          (if abortController request = controller
           then FetchSettled request cacheKey (Inl reason) else cl)
      | _ \<Rightarrow> cl)"

definition abort :: "nat \<Rightarrow> err \<Rightarrow> system \<Rightarrow> system" where
  "abort controller reason s =
     (case aborted s controller of
        Some r \<Rightarrow> s\<lparr>trace := trace s @ [Abort controller reason]\<rparr>
      | None \<Rightarrow>
          s\<lparr>aborted := (aborted s)(controller \<mapsto> reason),
            calls := (\<lambda>c. map_option (reject_waiting controller reason) (calls s c)),
            trace := trace s @ [Abort controller reason]\<rparr>)"

text \<open>
  The invocation of \<open>fetch\<close> by call \<open>c\<close>, with the signal of the request's controller.
  On a signal that is aborted already the returned promise is rejected with the
  signal's reason; otherwise the call waits.
\<close>

definition fetch :: "nat \<Rightarrow> Request \<Rightarrow> string \<Rightarrow> system \<Rightarrow> system" where
  "fetch c request cacheKey s =
     s\<lparr>calls := (calls s)(c \<mapsto>
         (case aborted s (abortController request) of
            Some reason \<Rightarrow> FetchSettled request cacheKey (Inl reason)
          | None \<Rightarrow> AwaitingFetch request cacheKey)),
       trace := trace s @ [Fetch c request]\<rparr>"

text \<open>
  \<open>setTimeout(callback, ms)\<close> by call \<open>c\<close>, and \<open>clearTimeout\<close> of the timer of call
  \<open>c\<close>.
\<close>

definition setTimeout :: "nat \<Rightarrow> Request \<Rightarrow> int \<Rightarrow> system \<Rightarrow> system" where
  "setTimeout c request ms s = s\<lparr>timers := (timers s)(c \<mapsto> (now s + ms, request))\<rparr>"

definition clearTimeout :: "nat \<Rightarrow> system \<Rightarrow> system" where
  "clearTimeout c s = s\<lparr>timers := (timers s)(c := None)\<rparr>"

text \<open>
  The callback given to \<open>setTimeout\<close> in \<open>_executeRequest\<close>: it aborts the controller of
  the request with \<open>new TimeoutError(`Request timed out after ${request.timeout}ms`)\<close>.
\<close>

definition timeout_message :: "Request \<Rightarrow> string" where
  "timeout_message request =
     ''Request timed out after ''
       @ (case timeout request of Some t \<Rightarrow> show_int t | None \<Rightarrow> ''undefined'') @ ''ms''"

definition timeout_callback :: "Request \<Rightarrow> system \<Rightarrow> system" where
  "timeout_callback request s =
     abort (abortController request) (TimeoutError (timeout_message request)) s"

subsection \<open>The request executor\<close>

text \<open>
  \<open>_executeRequest\<close>, from its start to \<open>await fetch(...)\<close> (or to an earlier return or
  throw), for the call \<open>c\<close> on the request description \<open>this.request\<close>. The steps keep
  the order of the source: request middleware, cache key, cache check, cancelling a
  duplicate, registering as pending, arming the timeout, invoking the transport.
  Middleware functions are functions of the value they are given and do not touch the
  client, so the \<open>await\<close> of the request middleware is not a step of its own: from the
  cache key to the invocation of the transport the source runs without suspension.
\<close>

definition cancelDuplicate :: "string \<Rightarrow> system \<Rightarrow> system" where
  "cancelDuplicate cacheKey s =
     (case getPendingRequest cacheKey s of
        Some pendingController \<Rightarrow> abort pendingController AbortError s
      | None \<Rightarrow> s)"

text \<open>\<open>if (request.timeout && request.timeout > 0) timeoutId = setTimeout(...)\<close>.\<close>

definition armTimeout :: "nat \<Rightarrow> Request \<Rightarrow> system \<Rightarrow> system" where
  "armTimeout c request s =
     (case timeout request of
        Some t \<Rightarrow> (if t \<noteq> 0 \<and> t > 0 then setTimeout c request t s else s)
      | None \<Rightarrow> s)"

definition executeRequest :: "nat \<Rightarrow> Request \<Rightarrow> system \<Rightarrow> system" where
  "executeRequest c this_request s0 =
     (case runMiddlewares (middlewares_request s0) this_request of
        (cs, Inl e) \<Rightarrow>
          s0\<lparr>calls := (calls s0)(c \<mapsto> Returned (Inl e)),
             trace := trace s0 @ map RequestMw cs\<rparr>
      | (cs, Inr request) \<Rightarrow>
          (let s = s0\<lparr>trace := trace s0 @ map RequestMw cs\<rparr>;
               cacheKey = getCacheKey request;
               (cachedResponse, s1) =
                 (if truthy (Request.cache request) then getCachedResponse cacheKey s
                  else (None, s))
           in case cachedResponse of
                Some cached \<Rightarrow>
                  (case clone cached s1 of
                     (res, s2) \<Rightarrow> s2\<lparr>calls := (calls s2)(c \<mapsto> Returned res)\<rparr>)
              | None \<Rightarrow>
                  fetch c request cacheKey
                    (armTimeout c request
                      (registerPendingRequest cacheKey (abortController request)
                        (cancelDuplicate cacheKey s1)))))"

text \<open>
  The rest of the \<open>try\<close> block, once the transport has delivered a response: the
  response middleware, and the cache write when \<open>request.cache\<close> is truthy, with
  \<open>typeof request.cache === 'boolean' ? undefined : request.cache\<close> as the ttl.
\<close>

definition cacheTtl :: "bool_or_number option \<Rightarrow> int option" where
  "cacheTtl d = (case d of Some (N n) \<Rightarrow> Some n | _ \<Rightarrow> None)"

definition processResponse ::
    "Request \<Rightarrow> string \<Rightarrow> Response \<Rightarrow> system \<Rightarrow> (err + Response) \<times> system" where
  "processResponse request cacheKey resp s =
     (case runMiddlewares (middlewares_response s) resp of
        (cs, Inl e) \<Rightarrow> (Inl e, s\<lparr>trace := trace s @ map ResponseMw cs\<rparr>)
      | (cs, Inr processedResponse) \<Rightarrow>
          (let s1 = s\<lparr>trace := trace s @ map ResponseMw cs\<rparr> in
           if truthy (Request.cache request) then
             (case clone processedResponse s1 of
                (Inl e, s2) \<Rightarrow> (Inl e, s2)
              | (Inr copy, s2) \<Rightarrow>
                  (Inr processedResponse,
                   cacheResponse cacheKey copy (cacheTtl (Request.cache request)) s2))
           else (Inr processedResponse, s1)))"

text \<open>
  The \<open>finally\<close> block: \<open>clearTimeout(timeoutId)\<close> when a timer was armed, then
  \<open>this.fluidFetch.removePendingRequest(cacheKey)\<close>.
\<close>

definition cleanup :: "nat \<Rightarrow> string \<Rightarrow> system \<Rightarrow> system" where
  "cleanup c cacheKey s = removePendingRequest cacheKey (clearTimeout c s)"

text \<open>
  \<open>_executeRequest\<close> from the moment the call \<open>c\<close> is resumed after \<open>await fetch(...)\<close>
  to its end: on a rejection only the \<open>finally\<close> block runs and the failure is
  propagated; on a response the \<open>try\<close> block is completed first.
\<close>

definition executeRequest_resume :: "nat \<Rightarrow> system \<Rightarrow> system" where
  "executeRequest_resume c s =
     (case calls s c of
        Some (FetchSettled request cacheKey outcome) \<Rightarrow>
          (case (case outcome of
                   Inl e \<Rightarrow> (Inl e, s)
                 | Inr resp \<Rightarrow> processResponse request cacheKey resp s) of
             (res, s1) \<Rightarrow>
               (let s2 = cleanup c cacheKey s1
                in s2\<lparr>calls := (calls s2)(c \<mapsto> Returned res)\<rparr>))
      | _ \<Rightarrow> s)"

subsection \<open>What the environment does\<close>

text \<open>
  The transport settles the promise of a waiting call \<open>c\<close>, with a failure or with the
  status and body of a response, for which a new \<open>Response\<close> object is allocated.
\<close>

definition fetch_settles :: "nat \<Rightarrow> err + int \<times> string \<Rightarrow> system \<Rightarrow> system" where
  "fetch_settles c outcome s =
     (case calls s c of
        Some (AwaitingFetch request cacheKey) \<Rightarrow>
          (case outcome of
             Inl e \<Rightarrow> s\<lparr>calls := (calls s)(c \<mapsto> FetchSettled request cacheKey (Inl e))\<rparr>
           | Inr (st, b) \<Rightarrow>
               s\<lparr>calls := (calls s)(c \<mapsto> FetchSettled request cacheKey
                    (Inr \<lparr>obj = nextObj s, bodyUsed = False, status = st, body = b\<rparr>)),
                 nextObj := Suc (nextObj s)\<rparr>)
      | _ \<Rightarrow> s)"

text \<open>
  The timer armed by call \<open>c\<close> fires: only when it is still armed and its time has come;
  it is removed and its callback runs.
\<close>

definition timer_fires :: "nat \<Rightarrow> system \<Rightarrow> system" where
  "timer_fires c s =
     (case timers s c of
        Some (due, request) \<Rightarrow>
          (if due \<le> now s then timeout_callback request (s\<lparr>timers := (timers s)(c := None)\<rparr>)
           else s)
      | None \<Rightarrow> s)"

text \<open>\<open>FluidFetchRequest.cancel()\<close>: \<open>this.request.abortController.abort()\<close>.\<close>

definition cancel :: "Request \<Rightarrow> system \<Rightarrow> system" where
  "cancel request s = abort (abortController request) AbortError s"

text \<open>Time passes.\<close>

definition advance :: "int \<Rightarrow> system \<Rightarrow> system" where
  "advance d s = s\<lparr>now := now s + d\<rparr>"

text \<open>
  The states the system can be in: those reached from a new client by executing
  requests (each execution under a number not used before), by the transport settling,
  by resuming calls, by timers firing, by cancelling, by time passing, and by registering
  and removing middleware.
\<close>

inductive reachable :: "system \<Rightarrow> bool" where
  r_new: "reachable (new_FluidFetch t)"
| r_execute: "reachable s \<Longrightarrow> calls s c = None \<Longrightarrow> reachable (executeRequest c r s)"
| r_settle: "reachable s \<Longrightarrow> reachable (fetch_settles c outcome s)"
| r_resume: "reachable s \<Longrightarrow> reachable (executeRequest_resume c s)"
| r_timer: "reachable s \<Longrightarrow> reachable (timer_fires c s)"
| r_cancel: "reachable s \<Longrightarrow> reachable (cancel r s)"
| r_advance: "reachable s \<Longrightarrow> 0 \<le> d \<Longrightarrow> reachable (advance d s)"
| r_request_mw: "reachable s \<Longrightarrow>
    reachable (s\<lparr>middlewares_request := apply_op op1 (middlewares_request s)\<rparr>)"
| r_response_mw: "reachable s \<Longrightarrow>
    reachable (s\<lparr>middlewares_response := apply_op op2 (middlewares_response s)\<rparr>)"
| r_clear_request_mw: "reachable s \<Longrightarrow>
    reachable (s\<lparr>middlewares_request := clear (middlewares_request s)\<rparr>)"
| r_clear_response_mw: "reachable s \<Longrightarrow>
    reachable (s\<lparr>middlewares_response := clear (middlewares_response s)\<rparr>)"

text \<open>
  Four properties of every reachable state: a call that waits for the transport has a
  controller that is not aborted; a cached response is an object allocated earlier,
  whose body has not been read; a call that waits for the transport and whose request
  has a positive timeout has its timer armed; the local \<open>cacheKey\<close> of a call is the
  cache key of its local \<open>request\<close>.
\<close>

definition waiting_not_aborted :: "system \<Rightarrow> bool" where
  "waiting_not_aborted s \<longleftrightarrow>
     (\<forall>c request cacheKey. calls s c = Some (AwaitingFetch request cacheKey)
        \<longrightarrow> aborted s (abortController request) = None)"

definition cache_fresh :: "system \<Rightarrow> bool" where
  "cache_fresh s \<longleftrightarrow>
     (\<forall>k entry. cache s k = Some entry
        \<longrightarrow> obj (response entry) < nextObj s \<and> \<not> bodyUsed (response entry))"

definition waiting_armed :: "system \<Rightarrow> bool" where
  "waiting_armed s \<longleftrightarrow>
     (\<forall>c request cacheKey t. calls s c = Some (AwaitingFetch request cacheKey)
        \<and> timeout request = Some t \<and> 0 < t
        \<longrightarrow> (\<exists>due. timers s c = Some (due, request)))"

definition call_key :: "system \<Rightarrow> bool" where
  "call_key s \<longleftrightarrow>
     (\<forall>c request cacheKey.
        (calls s c = Some (AwaitingFetch request cacheKey) \<longrightarrow> cacheKey = getCacheKey request)
      \<and> (\<forall>outcome. calls s c = Some (FetchSettled request cacheKey outcome)
             \<longrightarrow> cacheKey = getCacheKey request))"

text \<open>
  The request would be served from the cache: its cache directive is truthy and the
  store holds an entry for its key that has not expired.
\<close>

definition cache_hit :: "system \<Rightarrow> Request \<Rightarrow> bool" where
  "cache_hit s request \<longleftrightarrow>
     truthy (Request.cache request) \<and>
     (case cache s (getCacheKey request) of
        Some entry \<Rightarrow> now s < expires entry
      | None \<Rightarrow> False)"

section \<open>Concrete inputs\<close>

text \<open>Managers, requests and runs on which the theorems below are instantiated.\<close>

definition ex_ops :: "nat mw_op list" where
  "ex_ops = [Use (\<lambda>x. Inr (x + 1)) None, Use (\<lambda>x. Inr (x * 2)) None, Eject 0,
             Use (\<lambda>x. Inr (x + 10)) None, Eject 7]"

definition h_inc :: "nat handler" where
  "h_inc = \<lparr>fulfilled = (\<lambda>x. Inr (x + 1)), rejected = None, handler_id = 0\<rparr>"

definition h_boom_recover :: "nat handler" where
  "h_boom_recover = \<lparr>fulfilled = (\<lambda>x. Inl (Thrown ''boom'')),
      rejected = Some (\<lambda>e. Inr 42), handler_id = 1\<rparr>"

definition h_boom :: "nat handler" where
  "h_boom = \<lparr>fulfilled = (\<lambda>x. Inl (Thrown ''boom'')), rejected = None, handler_id = 1\<rparr>"

definition h_double :: "nat handler" where
  "h_double = \<lparr>fulfilled = (\<lambda>x. Inr (x * 2)), rejected = None, handler_id = 2\<rparr>"

definition ex_response :: Response where
  "ex_response = \<lparr>obj = 0, bodyUsed = False, status = 200, body = ''[]''\<rparr>"

definition ex_cache_state :: system where
  "ex_cache_state = (new_FluidFetch 1000)
     \<lparr>cache := [''live'' \<mapsto> \<lparr>response = ex_response, expires = 1001\<rparr>,
                ''stale'' \<mapsto> \<lparr>response = ex_response, expires = 1000\<rparr>],
      nextObj := 1\<rparr>"

definition get_users :: "nat \<Rightarrow> Request" where
  "get_users h = \<lparr>http_method = GET, url = ''/users'', data = None, headers = [], params = [],
      Request.cache = None, timeout = None, abortController = h\<rparr>"

definition ex_page1 :: "Request" where
  "ex_page1 = (get_users 1)\<lparr>params := [(''page'', PNumber 1)]\<rparr>"

definition ex_page1_other :: "Request" where
  "ex_page1_other = (get_users 2)
     \<lparr>http_method := GET, data := Some ''{}'', headers := [(''X-Trace'', ''1'')],
      params := [(''page'', PNumber 1)], Request.cache := Some (B True), timeout := Some 10\<rparr>"

definition ex_key :: string where
  "ex_key = ''GET:/users:{}''"

definition dd1 :: system where
  "dd1 = executeRequest 0 (get_users 1) (new_FluidFetch 1000)"

definition dd2 :: system where
  "dd2 = executeRequest 1 (get_users 2) dd1"

definition dd1s :: system where
  "dd1s = fetch_settles 0 (Inr (200, ''[]'')) dd1"

definition dd2s :: system where
  "dd2s = executeRequest 1 (get_users 2) dd1s"

definition timeout_users :: Request where
  "timeout_users = (get_users 1)\<lparr>timeout := Some 10\<rparr>"

definition tm1 :: system where
  "tm1 = executeRequest 0 timeout_users (new_FluidFetch 1000)"

definition tm2 :: system where
  "tm2 = advance 10 tm1"

definition cached_users :: "nat \<Rightarrow> Request" where
  "cached_users h = (get_users h)\<lparr>Request.cache := Some (B True)\<rparr>"

definition ch1 :: system where
  "ch1 = executeRequest 0 (cached_users 1) (new_FluidFetch 1000)"

definition ch2 :: system where
  "ch2 = fetch_settles 0 (Inr (200, ''[]'')) ch1"

definition ch3 :: system where
  "ch3 = executeRequest_resume 0 ch2"

definition ch4 :: system where
  "ch4 = advance 3599999 ch3"

definition add_trace_header :: "Request \<Rightarrow> err + Request" where
  "add_trace_header r = Inr (r\<lparr>headers := headers r @ [(''X-Trace'', ''1'')]\<rparr>)"

definition throwing :: "Request \<Rightarrow> err + Request" where
  "throwing r = Inl (Thrown ''M2'')"

definition mw_state :: system where
  "mw_state = (new_FluidFetch 1000)
     \<lparr>middlewares_request :=
        apply_ops [Use add_trace_header None, Use throwing None] new_MiddlewareManager\<rparr>"

definition cache_false_users :: "nat \<Rightarrow> Request" where
  "cache_false_users h = FluidFetchRequest_cache (B False) (get_users h)"

definition cf2 :: system where
  "cf2 = fetch_settles 0 (Inr (200, ''[]''))
           (executeRequest 0 (cache_false_users 1) (new_FluidFetch 1000))"

definition cf3 :: system where
  "cf3 = executeRequest_resume 0 cf2"

definition ex_ab :: Request where
  "ex_ab = (get_users 1)\<lparr>params := [(''a'', PNumber 1), (''b'', PNumber 2)]\<rparr>"

definition ex_ba :: Request where
  "ex_ba = (get_users 1)\<lparr>params := [(''b'', PNumber 2), (''a'', PNumber 1)]\<rparr>"

definition read_body :: "Response \<Rightarrow> err + Response" where
  "read_body r = Inr (r\<lparr>bodyUsed := True\<rparr>)"

definition br0 :: system where
  "br0 = (new_FluidFetch 1000)
     \<lparr>middlewares_response := apply_op (Use read_body None) new_MiddlewareManager\<rparr>"

definition br1 :: system where
  "br1 = executeRequest 0 (cached_users 1) br0"

definition br2 :: system where
  "br2 = fetch_settles 0 (Inr (200, ''[]'')) br1"

definition br3 :: system where
  "br3 = executeRequest_resume 0 br2"

section \<open>Properties of the middleware manager\<close>

lemma findIndex_None: "findIndex p xs = None \<longleftrightarrow> (\<forall>x \<in> set xs. \<not> p x)"
  by (induction xs) auto

lemma findIndex_Some: "findIndex p xs = Some k \<Longrightarrow> k < length xs \<and> p (xs ! k) \<and> (\<forall>j<k. \<not> p (xs ! j))"
proof (induction xs arbitrary: k)
  case Nil then show ?case by simp
next
  case (Cons x xs)
  show ?case
  proof (cases "p x")
    case True with Cons.prems show ?thesis by simp
  next
    case False
    with Cons.prems obtain k' where k': "findIndex p xs = Some k'" "k = Suc k'" by auto
    from Cons.IH[OF k'(1)] False k'(2) show ?thesis by (auto simp: less_Suc_eq_0_disj)
  qed
qed

lemma splice1_filter:
  assumes "distinct (map f xs)" "k < length xs"
  shows "splice1 k xs = filter (\<lambda>x. f x \<noteq> f (xs ! k)) xs"
  using assms
proof (induction xs arbitrary: k)
  case Nil then show ?case by simp
next
  case (Cons x xs)
  show ?case
  proof (cases k)
    case 0
    have "\<forall>y\<in>set xs. f y \<noteq> f x" using Cons.prems(1) by (force simp: image_iff)
    then have "filter (\<lambda>y. f y \<noteq> f x) xs = xs" by (simp add: filter_id_conv)
    with 0 show ?thesis by (simp add: splice1_def)
  next
    case (Suc k')
    with Cons.prems have "k' < length xs" "distinct (map f xs)" by auto
    from Cons.IH[OF this(2) this(1)] have IH: "splice1 k' xs = filter (\<lambda>y. f y \<noteq> f (xs ! k')) xs" .
    have "f x \<noteq> f (xs ! k')" using Cons.prems(1) \<open>k' < length xs\<close> by (auto simp: image_iff) 
    with IH Suc show ?thesis by (simp add: splice1_def)
  qed
qed

lemma eject_filter:
  assumes "distinct (map handler_id (handlers m))"
  shows "handlers (eject i m) = filter (\<lambda>h. handler_id h \<noteq> i) (handlers m)"
proof (cases "findIndex (\<lambda>h. handler_id h = i) (handlers m)")
  case None
  then have "\<forall>h \<in> set (handlers m). handler_id h \<noteq> i" by (simp add: findIndex_None)
  then have "filter (\<lambda>h. handler_id h \<noteq> i) (handlers m) = handlers m" by (simp add: filter_id_conv)
  with None show ?thesis by (simp add: eject_def)
next
  case (Some k)
  from findIndex_Some[OF Some] have k: "k < length (handlers m)" "handler_id (handlers m ! k) = i" by auto
  from splice1_filter[OF assms k(1)] k(2) Some show ?thesis by (simp add: eject_def)
qed

lemma eject_idCounter: "idCounter (eject i m) = idCounter m"
  by (simp add: eject_def split: option.splits)

lemma ids_ok_eject: "ids_ok m \<Longrightarrow> ids_ok (eject i m)"
  by (auto simp: ids_ok_def eject_filter eject_idCounter distinct_map_filter)

lemma ids_ok_use: "ids_ok m \<Longrightarrow> ids_ok (snd (use f r m))"
  by (auto simp: ids_ok_def use_def Let_def)

lemma remaining_ids: "h \<in> set (remaining n ops) \<Longrightarrow> n \<le> handler_id h"
  by (induction n ops rule: remaining.induct) (auto split: if_splits)

lemma apply_ops_remaining:
  "ids_ok m \<Longrightarrow> handlers (apply_ops ops m) =
     filter (\<lambda>h. handler_id h \<notin> set (ejected ops)) (handlers m) @ remaining (idCounter m) ops"
proof (induction ops arbitrary: m)
  case Nil
  then show ?case by (simp add: apply_ops_def)
next
  case (Cons a ops)
  show ?case
  proof (cases a)
    case (Use f r)
    have ok: "ids_ok (snd (use f r m))" using Cons.prems by (rule ids_ok_use)
    have "handlers (apply_ops (a # ops) m) = handlers (apply_ops ops (snd (use f r m)))"
      using Use by (simp add: apply_ops_def)
    also have "\<dots> = filter (\<lambda>h. handler_id h \<notin> set (ejected ops)) (handlers (snd (use f r m)))
        @ remaining (idCounter (snd (use f r m))) ops"
      by (rule Cons.IH[OF ok])
    finally show ?thesis using Use by (simp add: use_def Let_def)
  next
    case (Eject i)
    have ok: "ids_ok (eject i m)" using Cons.prems by (rule ids_ok_eject)
    have d: "distinct (map handler_id (handlers m))" using Cons.prems by (simp add: ids_ok_def)
    have "handlers (apply_ops (a # ops) m) = handlers (apply_ops ops (eject i m))"
      using Eject by (simp add: apply_ops_def)
    also have "\<dots> = filter (\<lambda>h. handler_id h \<notin> set (ejected ops)) (handlers (eject i m))
        @ remaining (idCounter (eject i m)) ops"
      by (rule Cons.IH[OF ok])
    finally show ?thesis using Eject
      by (simp add: eject_filter[OF d] eject_idCounter conj_commute cong: filter_cong)
  qed
qed

lemma transforms_append: "transforms (xs @ ys) = transforms xs @ transforms ys"
  by (induction xs rule: transforms.induct) auto

lemma transforms_runHandler: "transforms (fst (runHandler h v)) = [handler_id h]"
  by (simp add: runHandler_def split: sum.splits option.splits)

lemma runLoop_Cons:
  "runLoop (h # hs) v =
     (case snd (runHandler h v) of
        Inl e \<Rightarrow> (fst (runHandler h v), Inl e)
      | Inr v' \<Rightarrow> (fst (runHandler h v) @ fst (runLoop hs v'), snd (runLoop hs v')))"
  by (auto split: prod.splits sum.splits)

lemma runLoop_prefix:
  "prefix (transforms (fst (runLoop hs v))) (map handler_id hs)"
proof (induction hs arbitrary: v)
  case Nil then show ?case by simp
next
  case (Cons h hs)
  obtain cs res where r: "runHandler h v = (cs, res)" by (cases "runHandler h v")
  have t: "transforms cs = [handler_id h]" using transforms_runHandler[of h v] r by simp
  show ?case
  proof (cases res)
    case (Inl e) with r t show ?thesis by (simp add: runLoop_Cons del: runLoop.simps)
  next
    case (Inr v')
    with r t Cons.IH[of v'] show ?thesis by (simp add: transforms_append runLoop_Cons del: runLoop.simps)
  qed
qed

lemma runLoop_all:
  "snd (runLoop hs v) = Inr w \<Longrightarrow> transforms (fst (runLoop hs v)) = map handler_id hs"
proof (induction hs arbitrary: v)
  case Nil then show ?case by simp
next
  case (Cons h hs)
  obtain cs res where r: "runHandler h v = (cs, res)" by (cases "runHandler h v")
  have t: "transforms cs = [handler_id h]" using transforms_runHandler[of h v] r by simp
  show ?case
  proof (cases res)
    case (Inl e) with r Cons.prems show ?thesis by (simp add: runLoop_Cons del: runLoop.simps)
  next
    case (Inr v')
    with r t Cons.IH[of v'] Cons.prems show ?thesis by (simp add: transforms_append runLoop_Cons del: runLoop.simps)
  qed
qed

lemma runLoop_append:
  "runLoop (pre @ post) v0 =
     (case snd (runLoop pre v0) of
        Inl e \<Rightarrow> (fst (runLoop pre v0), Inl e)
      | Inr v \<Rightarrow> (fst (runLoop pre v0) @ fst (runLoop post v), snd (runLoop post v)))"
proof (induction pre arbitrary: v0)
  case Nil
  then show ?case by simp
next
  case (Cons h pre)
  show ?case
  proof (cases "snd (runHandler h v0)")
    case (Inl e)
    then show ?thesis by (simp add: runLoop_Cons del: runLoop.simps)
  next
    case (Inr v1)
    then show ?thesis
      by (simp add: runLoop_Cons Cons.IH[of v1] del: runLoop.simps split: sum.splits)
  qed
qed

lemma ids_ok_new: "ids_ok new_MiddlewareManager"
  by (simp add: ids_ok_def new_MiddlewareManager_def)

section \<open>The effect of each operation on the fields of the state\<close>

lemma registerPendingRequest_fields [simp]:
  "cache (registerPendingRequest k h s) = cache s"
  "pendingRequests (registerPendingRequest k h s) = (pendingRequests s)(k \<mapsto> h)"
  "middlewares_request (registerPendingRequest k h s) = middlewares_request s"
  "middlewares_response (registerPendingRequest k h s) = middlewares_response s"
  "aborted (registerPendingRequest k h s) = aborted s"
  "timers (registerPendingRequest k h s) = timers s"
  "calls (registerPendingRequest k h s) = calls s"
  "trace (registerPendingRequest k h s) = trace s @ [Register k h]"
  "now (registerPendingRequest k h s) = now s"
  "nextObj (registerPendingRequest k h s) = nextObj s"
  by (simp_all add: registerPendingRequest_def)

lemma removePendingRequest_fields [simp]:
  "cache (removePendingRequest k s) = cache s"
  "pendingRequests (removePendingRequest k s) = (pendingRequests s)(k := None)"
  "middlewares_request (removePendingRequest k s) = middlewares_request s"
  "middlewares_response (removePendingRequest k s) = middlewares_response s"
  "aborted (removePendingRequest k s) = aborted s"
  "timers (removePendingRequest k s) = timers s"
  "calls (removePendingRequest k s) = calls s"
  "trace (removePendingRequest k s) = trace s @ [Remove k]"
  "now (removePendingRequest k s) = now s"
  "nextObj (removePendingRequest k s) = nextObj s"
  by (simp_all add: removePendingRequest_def)

lemma clearTimeout_fields [simp]:
  "cache (clearTimeout c s) = cache s"
  "pendingRequests (clearTimeout c s) = pendingRequests s"
  "middlewares_request (clearTimeout c s) = middlewares_request s"
  "middlewares_response (clearTimeout c s) = middlewares_response s"
  "aborted (clearTimeout c s) = aborted s"
  "timers (clearTimeout c s) = (timers s)(c := None)"
  "calls (clearTimeout c s) = calls s"
  "trace (clearTimeout c s) = trace s"
  "now (clearTimeout c s) = now s"
  "nextObj (clearTimeout c s) = nextObj s"
  by (simp_all add: clearTimeout_def)

lemma armTimeout_fields [simp]:
  "cache (armTimeout c r s) = cache s"
  "pendingRequests (armTimeout c r s) = pendingRequests s"
  "middlewares_request (armTimeout c r s) = middlewares_request s"
  "middlewares_response (armTimeout c r s) = middlewares_response s"
  "aborted (armTimeout c r s) = aborted s"
  "timers (armTimeout c r s) =
     (case timeout r of Some t \<Rightarrow> if 0 < t then (timers s)(c \<mapsto> (now s + t, r)) else timers s
      | None \<Rightarrow> timers s)"
  "calls (armTimeout c r s) = calls s"
  "trace (armTimeout c r s) = trace s"
  "now (armTimeout c r s) = now s"
  "nextObj (armTimeout c r s) = nextObj s"
  by (auto simp: armTimeout_def setTimeout_def split: option.splits)

lemma cacheResponse_fields [simp]:
  "cache (cacheResponse k r ttl s) =
     (cache s)(k \<mapsto> \<lparr>response = r, expires = now s + (case ttl of Some n \<Rightarrow> n | None \<Rightarrow> 3600000)\<rparr>)"
  "pendingRequests (cacheResponse k r ttl s) = pendingRequests s"
  "middlewares_request (cacheResponse k r ttl s) = middlewares_request s"
  "middlewares_response (cacheResponse k r ttl s) = middlewares_response s"
  "aborted (cacheResponse k r ttl s) = aborted s"
  "timers (cacheResponse k r ttl s) = timers s"
  "calls (cacheResponse k r ttl s) = calls s"
  "trace (cacheResponse k r ttl s) = trace s"
  "now (cacheResponse k r ttl s) = now s"
  "nextObj (cacheResponse k r ttl s) = nextObj s"
  by (simp_all add: cacheResponse_def Let_def)

lemma abort_fields [simp]:
  "cache (abort h e s) = cache s"
  "pendingRequests (abort h e s) = pendingRequests s"
  "middlewares_request (abort h e s) = middlewares_request s"
  "middlewares_response (abort h e s) = middlewares_response s"
  "timers (abort h e s) = timers s"
  "trace (abort h e s) = trace s @ [Abort h e]"
  "now (abort h e s) = now s"
  "nextObj (abort h e s) = nextObj s"
  by (simp_all add: abort_def split: option.splits)

lemma abort_aborted:
  "aborted (abort h e s) = (case aborted s h of Some r \<Rightarrow> aborted s | None \<Rightarrow> (aborted s)(h \<mapsto> e))"
  by (simp add: abort_def split: option.splits)

lemma abort_calls:
  "calls (abort h e s) c =
     (case aborted s h of Some r \<Rightarrow> calls s c
      | None \<Rightarrow> map_option (reject_waiting h e) (calls s c))"
  by (simp add: abort_def split: option.splits)

lemma cancelDuplicate_fields [simp]:
  "cache (cancelDuplicate k s) = cache s"
  "pendingRequests (cancelDuplicate k s) = pendingRequests s"
  "middlewares_request (cancelDuplicate k s) = middlewares_request s"
  "middlewares_response (cancelDuplicate k s) = middlewares_response s"
  "timers (cancelDuplicate k s) = timers s"
  "now (cancelDuplicate k s) = now s"
  "nextObj (cancelDuplicate k s) = nextObj s"
  by (simp_all add: cancelDuplicate_def split: option.splits)

lemma fetch_fields [simp]:
  "cache (fetch c r k s) = cache s"
  "pendingRequests (fetch c r k s) = pendingRequests s"
  "middlewares_request (fetch c r k s) = middlewares_request s"
  "middlewares_response (fetch c r k s) = middlewares_response s"
  "aborted (fetch c r k s) = aborted s"
  "timers (fetch c r k s) = timers s"
  "trace (fetch c r k s) = trace s @ [Fetch c r]"
  "now (fetch c r k s) = now s"
  "nextObj (fetch c r k s) = nextObj s"
  by (simp_all add: fetch_def)

lemma fetch_calls:
  "calls (fetch c r k s) =
     (calls s)(c \<mapsto> (case aborted s (abortController r) of
                        Some reason \<Rightarrow> FetchSettled r k (Inl reason)
                      | None \<Rightarrow> AwaitingFetch r k))"
  by (simp add: fetch_def)

lemma getCachedResponse_fields [simp]:
  "pendingRequests (snd (getCachedResponse k s)) = pendingRequests s"
  "middlewares_request (snd (getCachedResponse k s)) = middlewares_request s"
  "middlewares_response (snd (getCachedResponse k s)) = middlewares_response s"
  "aborted (snd (getCachedResponse k s)) = aborted s"
  "timers (snd (getCachedResponse k s)) = timers s"
  "calls (snd (getCachedResponse k s)) = calls s"
  "trace (snd (getCachedResponse k s)) = trace s"
  "now (snd (getCachedResponse k s)) = now s"
  "nextObj (snd (getCachedResponse k s)) = nextObj s"
  by (simp_all add: getCachedResponse_def split: option.splits)

lemma getCachedResponse_cache:
  "cache (snd (getCachedResponse k s)) k' = Some e \<Longrightarrow> cache s k' = Some e"
  by (auto simp: getCachedResponse_def split: option.splits if_splits)

lemma clone_fields [simp]:
  "cache (snd (clone r s)) = cache s"
  "pendingRequests (snd (clone r s)) = pendingRequests s"
  "middlewares_request (snd (clone r s)) = middlewares_request s"
  "middlewares_response (snd (clone r s)) = middlewares_response s"
  "aborted (snd (clone r s)) = aborted s"
  "timers (snd (clone r s)) = timers s"
  "calls (snd (clone r s)) = calls s"
  "trace (snd (clone r s)) = trace s"
  "now (snd (clone r s)) = now s"
  by (simp_all add: clone_def)

lemma clone_nextObj: "nextObj s \<le> nextObj (snd (clone r s))"
  by (simp add: clone_def)

lemma clone_Inr:
  "fst (clone r s) = Inr r' \<Longrightarrow>
     r' = r\<lparr>obj := nextObj s\<rparr> \<and> \<not> bodyUsed r \<and> nextObj (snd (clone r s)) = Suc (nextObj s)"
  by (auto simp: clone_def split: if_splits)

section \<open>The paths of the executor\<close>

lemma executeRequest_cases:
  obtains (mw_failed) cs e where
      "runMiddlewares (middlewares_request s) r = (cs, Inl e)"
      "executeRequest c r s =
         s\<lparr>calls := (calls s)(c \<mapsto> Returned (Inl e)), trace := trace s @ map RequestMw cs\<rparr>"
  | (hit) cs request cached s1 where
      "runMiddlewares (middlewares_request s) r = (cs, Inr request)"
      "truthy (Request.cache request)"
      "getCachedResponse (getCacheKey request) (s\<lparr>trace := trace s @ map RequestMw cs\<rparr>)
         = (Some cached, s1)"
      "executeRequest c r s =
         (snd (clone cached s1))\<lparr>calls :=
           (calls (snd (clone cached s1)))(c \<mapsto> Returned (fst (clone cached s1)))\<rparr>"
  | (miss) cs request s1 where
      "runMiddlewares (middlewares_request s) r = (cs, Inr request)"
      "s1 = (if truthy (Request.cache request)
             then snd (getCachedResponse (getCacheKey request)
                         (s\<lparr>trace := trace s @ map RequestMw cs\<rparr>))
             else s\<lparr>trace := trace s @ map RequestMw cs\<rparr>)"
      "truthy (Request.cache request) \<longrightarrow>
         fst (getCachedResponse (getCacheKey request)
                (s\<lparr>trace := trace s @ map RequestMw cs\<rparr>)) = None"
      "executeRequest c r s =
         fetch c request (getCacheKey request)
           (armTimeout c request
             (registerPendingRequest (getCacheKey request) (abortController request)
               (cancelDuplicate (getCacheKey request) s1)))"
proof -
  obtain cs res where run: "runMiddlewares (middlewares_request s) r = (cs, res)"
    by (cases "runMiddlewares (middlewares_request s) r")
  show thesis
  proof (cases res)
    case (Inl e)
    with run show thesis by (intro mw_failed[of cs e]) (simp_all add: executeRequest_def Let_def)
  next
    case (Inr request)
    let ?s = "s\<lparr>trace := trace s @ map RequestMw cs\<rparr>"
    let ?k = "getCacheKey request"
    show thesis
    proof (cases "truthy (Request.cache request)")
      case False
      with run Inr show thesis
        by (intro miss[of cs request ?s]) (simp_all add: executeRequest_def Let_def)
    next
      case True
      obtain cr s1 where g: "getCachedResponse ?k ?s = (cr, s1)"
        by (cases "getCachedResponse ?k ?s")
      show thesis
      proof (cases cr)
        case None
        with run Inr True g show thesis
          by (intro miss[of cs request s1]) (simp_all add: executeRequest_def Let_def)
      next
        case (Some cached)
        with run Inr True g show thesis
          by (intro hit[of cs request cached s1])
             (simp_all add: executeRequest_def Let_def case_prod_beta)
      qed
    qed
  qed
qed

section \<open>Invariants of the reachable states\<close>

subsection \<open>waiting_not_aborted\<close>

lemma reject_waiting_Awaiting:
  "reject_waiting h e cl = AwaitingFetch r k \<longleftrightarrow> cl = AwaitingFetch r k \<and> abortController r \<noteq> h"
  by (cases cl) (auto simp: reject_waiting_def)

lemma abort_calls_Awaiting:
  "calls (abort h e s) c = Some (AwaitingFetch r k) \<longleftrightarrow>
     calls s c = Some (AwaitingFetch r k) \<and> (aborted s h = None \<longrightarrow> abortController r \<noteq> h)"
  by (cases "aborted s h") (auto simp: abort_calls reject_waiting_Awaiting)

lemma wna_abort: "waiting_not_aborted s \<Longrightarrow> waiting_not_aborted (abort h e s)"
  unfolding waiting_not_aborted_def
  by (cases "aborted s h") (auto simp: abort_calls_Awaiting abort_aborted)

lemma wna_fetch: "waiting_not_aborted s \<Longrightarrow> waiting_not_aborted (fetch c r k s)"
  unfolding waiting_not_aborted_def
  by (auto simp: fetch_calls split: option.splits if_splits)

lemma wna_cong:
  "waiting_not_aborted s \<Longrightarrow> calls s' = calls s \<Longrightarrow> aborted s' = aborted s \<Longrightarrow>
     waiting_not_aborted s'"
  by (simp add: waiting_not_aborted_def)

lemma wna_not_waiting:
  "waiting_not_aborted s \<Longrightarrow> aborted s' = aborted s \<Longrightarrow>
   calls s' = (calls s)(c \<mapsto> cl) \<Longrightarrow> (\<And>r k. cl \<noteq> AwaitingFetch r k) \<Longrightarrow>
     waiting_not_aborted s'"
  unfolding waiting_not_aborted_def by (auto split: if_splits)

lemma wna_cancelDuplicate: "waiting_not_aborted s \<Longrightarrow> waiting_not_aborted (cancelDuplicate k s)"
  by (simp add: cancelDuplicate_def wna_abort split: option.splits)

lemma wna_executeRequest:
  assumes "waiting_not_aborted s"
  shows "waiting_not_aborted (executeRequest c r s)"
proof (cases rule: executeRequest_cases[of s r c])
  case (mw_failed cs e)
  show ?thesis
    by (rule wna_not_waiting[OF assms, of _ c "Returned (Inl e)"]) (simp_all add: mw_failed(2))
next
  case (hit cs request cached s1)
  have s1: "calls s1 = calls s" "aborted s1 = aborted s"
    using getCachedResponse_fields(4,6)[of "getCacheKey request" "s\<lparr>trace := trace s @ map RequestMw cs\<rparr>"]
    by (simp_all add: hit(3))
  show ?thesis
    by (rule wna_not_waiting[OF assms, of _ c "Returned (fst (clone cached s1))"])
       (simp_all add: hit(4) s1)
next
  case (miss cs request s1)
  have "calls s1 = calls s" "aborted s1 = aborted s"
    by (simp_all add: miss(2))
  with assms have "waiting_not_aborted s1" by (rule wna_cong)
  then have "waiting_not_aborted (cancelDuplicate (getCacheKey request) s1)"
    by (rule wna_cancelDuplicate)
  then have "waiting_not_aborted (armTimeout c request
             (registerPendingRequest (getCacheKey request) (abortController request)
               (cancelDuplicate (getCacheKey request) s1)))"
    by (rule wna_cong) simp_all
  then show ?thesis unfolding miss(4) by (rule wna_fetch)
qed

lemma wna_fetch_settles:
  "waiting_not_aborted s \<Longrightarrow> waiting_not_aborted (fetch_settles c outcome s)"
  unfolding waiting_not_aborted_def
  by (auto simp: fetch_settles_def split: option.splits call.splits sum.splits prod.splits if_splits)

lemma processResponse_fields [simp]:
  "pendingRequests (snd (processResponse r k resp s)) = pendingRequests s"
  "middlewares_request (snd (processResponse r k resp s)) = middlewares_request s"
  "middlewares_response (snd (processResponse r k resp s)) = middlewares_response s"
  "aborted (snd (processResponse r k resp s)) = aborted s"
  "timers (snd (processResponse r k resp s)) = timers s"
  "calls (snd (processResponse r k resp s)) = calls s"
  "now (snd (processResponse r k resp s)) = now s"
  by (auto simp: processResponse_def clone_def Let_def split: prod.splits sum.splits)

lemma resume_other:
  "calls s c = None \<or> (\<exists>r k. calls s c = Some (AwaitingFetch r k)) \<or> (\<exists>res. calls s c = Some (Returned res))
     \<Longrightarrow> executeRequest_resume c s = s"
  by (auto simp: executeRequest_resume_def)

lemma resume_settled:
  assumes "calls s c = Some (FetchSettled r k outcome)"
  shows "executeRequest_resume c s =
     (let p = (case outcome of Inl e \<Rightarrow> (Inl e, s) | Inr resp \<Rightarrow> processResponse r k resp s);
          s2 = cleanup c k (snd p)
      in s2\<lparr>calls := (calls s2)(c \<mapsto> Returned (fst p))\<rparr>)"
  using assms by (simp add: executeRequest_resume_def Let_def case_prod_beta)

lemma resume_fields:
  assumes "calls s c = Some (FetchSettled r k outcome)"
  shows "calls (executeRequest_resume c s) =
           (calls s)(c \<mapsto> Returned (fst (case outcome of Inl e \<Rightarrow> (Inl e, s)
                                            | Inr resp \<Rightarrow> processResponse r k resp s)))"
    and "aborted (executeRequest_resume c s) = aborted s"
    and "timers (executeRequest_resume c s) = (timers s)(c := None)"
    and "pendingRequests (executeRequest_resume c s) = (pendingRequests s)(k := None)"
    and "now (executeRequest_resume c s) = now s"
  by (simp_all add: resume_settled[OF assms] Let_def cleanup_def split: sum.splits)

lemma wna_resume:
  assumes "waiting_not_aborted s"
  shows "waiting_not_aborted (executeRequest_resume c s)"
proof (cases "calls s c")
  case None
  then show ?thesis using assms by (simp add: resume_other)
next
  case (Some cl)
  show ?thesis
  proof (cases cl)
    case (AwaitingFetch r k)
    with Some assms show ?thesis by (simp add: resume_other)
  next
    case (Returned res)
    with Some assms show ?thesis by (simp add: resume_other)
  next
    case (FetchSettled r k outcome)
    with Some have c: "calls s c = Some (FetchSettled r k outcome)" by simp
    show ?thesis
      by (rule wna_not_waiting[OF assms resume_fields(2)[OF c] resume_fields(1)[OF c]]) simp
  qed
qed

lemma wna_timer: "waiting_not_aborted s \<Longrightarrow> waiting_not_aborted (timer_fires c s)"
proof -
  assume a: "waiting_not_aborted s"
  have "\<And>x. waiting_not_aborted (s\<lparr>timers := x\<rparr>)" using a by (simp add: waiting_not_aborted_def)
  then show ?thesis using a
    by (auto simp: timer_fires_def timeout_callback_def wna_abort split: option.splits)
qed

lemma wna_reachable: "reachable s \<Longrightarrow> waiting_not_aborted s"
proof (induction rule: reachable.induct)
  case (r_new t)
  show ?case by (simp add: waiting_not_aborted_def new_FluidFetch_def)
next
  case (r_execute s c r)
  then show ?case by (simp add: wna_executeRequest)
next
  case (r_settle s c outcome)
  then show ?case by (simp add: wna_fetch_settles)
next
  case (r_resume s c)
  then show ?case by (simp add: wna_resume)
next
  case (r_timer s c)
  then show ?case by (simp add: wna_timer)
next
  case (r_cancel s r)
  then show ?case by (simp add: cancel_def wna_abort)
next
  case (r_advance s d)
  then show ?case by (simp add: advance_def waiting_not_aborted_def)
qed (simp_all add: waiting_not_aborted_def)

subsection \<open>cache_fresh\<close>

lemma cf_mono:
  "cache_fresh s \<Longrightarrow> (\<And>k e. cache s' k = Some e \<Longrightarrow> cache s k = Some e) \<Longrightarrow>
     nextObj s \<le> nextObj s' \<Longrightarrow> cache_fresh s'"
  unfolding cache_fresh_def by (meson less_le_trans)

lemma cf_getCachedResponse: "cache_fresh s \<Longrightarrow> cache_fresh (snd (getCachedResponse k s))"
  by (erule cf_mono) (auto dest: getCachedResponse_cache)

lemma cf_clone: "cache_fresh s \<Longrightarrow> cache_fresh (snd (clone r s))"
  by (erule cf_mono) (simp_all add: clone_nextObj)

lemma cf_cancelDuplicate: "cache_fresh s \<Longrightarrow> cache_fresh (cancelDuplicate k s)"
  by (erule cf_mono) simp_all

lemma cf_store:
  assumes "cache_fresh s" and "clone p s = (Inr copy, s2)"
  shows "cache_fresh (cacheResponse k copy ttl s2)"
proof -
  from assms(2) have c: "copy = p\<lparr>obj := nextObj s\<rparr>" "\<not> bodyUsed p" "s2 = s\<lparr>nextObj := Suc (nextObj s)\<rparr>"
    by (auto simp: clone_def split: if_splits)
  show ?thesis using assms(1) unfolding cache_fresh_def
    by (auto simp: c less_Suc_eq)
qed

lemma cf_executeRequest:
  assumes "cache_fresh s"
  shows "cache_fresh (executeRequest c r s)"
proof (cases rule: executeRequest_cases[of s r c])
  case (mw_failed cs e)
  show ?thesis by (rule cf_mono[OF assms]) (simp_all add: mw_failed(2))
next
  case (hit cs request cached s1)
  let ?s = "s\<lparr>trace := trace s @ map RequestMw cs\<rparr>"
  have "cache_fresh ?s" by (rule cf_mono[OF assms]) simp_all
  then have "cache_fresh (snd (getCachedResponse (getCacheKey request) ?s))"
    by (rule cf_getCachedResponse)
  then have "cache_fresh s1" by (simp add: hit(3))
  then have "cache_fresh (snd (clone cached s1))" by (rule cf_clone)
  then show ?thesis unfolding hit(4) by (rule cf_mono) simp_all
next
  case (miss cs request s1)
  let ?s = "s\<lparr>trace := trace s @ map RequestMw cs\<rparr>"
  have s: "cache_fresh ?s" by (rule cf_mono[OF assms]) simp_all
  then have "cache_fresh (snd (getCachedResponse (getCacheKey request) ?s))"
    by (rule cf_getCachedResponse)
  with s have "cache_fresh s1" by (simp add: miss(2))
  then show ?thesis unfolding miss(4) by (rule cf_mono) simp_all
qed

lemma cf_processResponse:
  assumes "cache_fresh s"
  shows "cache_fresh (snd (processResponse r k resp s))"
proof -
  obtain cs res where run: "runMiddlewares (middlewares_response s) resp = (cs, res)"
    by (cases "runMiddlewares (middlewares_response s) resp")
  let ?s1 = "s\<lparr>trace := trace s @ map ResponseMw cs\<rparr>"
  have s1: "cache_fresh ?s1" by (rule cf_mono[OF assms]) simp_all
  show ?thesis
  proof (cases res)
    case (Inl e)
    with run s1 show ?thesis by (simp add: processResponse_def)
  next
    case (Inr p)
    show ?thesis
    proof (cases "truthy (Request.cache r)")
      case False
      with run Inr s1 show ?thesis by (simp add: processResponse_def)
    next
      case True
      obtain x s2 where cl: "clone p ?s1 = (x, s2)" by (cases "clone p ?s1")
      show ?thesis
      proof (cases x)
        case (Inl e)
        have "cache_fresh (snd (clone p ?s1))" using s1 by (rule cf_clone)
        with run Inr True cl Inl show ?thesis by (simp add: processResponse_def)
      next
        case (Inr copy)
        with cl have "clone p ?s1 = (Inr copy, s2)" by simp
        from cf_store[OF s1 this]
        show ?thesis using run \<open>res = Inr p\<close> True cl Inr by (simp add: processResponse_def)
      qed
    qed
  qed
qed

lemma cf_resume:
  assumes "cache_fresh s"
  shows "cache_fresh (executeRequest_resume c s)"
proof (cases "\<exists>r k outcome. calls s c = Some (FetchSettled r k outcome)")
  case False
  then have "executeRequest_resume c s = s"
    by (auto simp: executeRequest_resume_def split: option.splits call.splits)
  with assms show ?thesis by simp
next
  case True
  then obtain r k outcome where c: "calls s c = Some (FetchSettled r k outcome)" by blast
  let ?p = "case outcome of Inl e \<Rightarrow> (Inl e, s) | Inr resp \<Rightarrow> processResponse r k resp s"
  have "cache_fresh (snd ?p)"
    using assms cf_processResponse[OF assms] by (simp split: sum.splits)
  then show ?thesis
    unfolding resume_settled[OF c] Let_def cleanup_def
    by (rule cf_mono) simp_all
qed

lemma cf_fetch_settles: "cache_fresh s \<Longrightarrow> cache_fresh (fetch_settles c outcome s)"
  by (erule cf_mono)
     (auto simp: fetch_settles_def split: option.splits call.splits sum.splits prod.splits)

lemma cf_timer: "cache_fresh s \<Longrightarrow> cache_fresh (timer_fires c s)"
  by (erule cf_mono)
     (auto simp: timer_fires_def timeout_callback_def split: option.splits prod.splits if_splits)

lemma cf_reachable: "reachable s \<Longrightarrow> cache_fresh s"
proof (induction rule: reachable.induct)
  case (r_new t)
  show ?case by (simp add: cache_fresh_def new_FluidFetch_def)
next
  case (r_execute s c r)
  then show ?case by (simp add: cf_executeRequest)
next
  case (r_settle s c outcome)
  then show ?case by (simp add: cf_fetch_settles)
next
  case (r_resume s c)
  then show ?case by (simp add: cf_resume)
next
  case (r_timer s c)
  then show ?case by (simp add: cf_timer)
next
  case (r_cancel s r)
  then show ?case by (simp add: cancel_def cache_fresh_def)
next
  case (r_advance s d)
  then show ?case by (simp add: advance_def cache_fresh_def)
qed (simp_all add: cache_fresh_def)

subsection \<open>waiting_armed\<close>

lemma wa_abort: "waiting_armed s \<Longrightarrow> waiting_armed (abort h e s)"
  unfolding waiting_armed_def by (simp add: abort_calls_Awaiting)

lemma wa_cong:
  "waiting_armed s \<Longrightarrow> calls s' = calls s \<Longrightarrow> timers s' = timers s \<Longrightarrow> waiting_armed s'"
  by (simp add: waiting_armed_def)

lemma wa_not_waiting:
  "waiting_armed s \<Longrightarrow> calls s' = (calls s)(c \<mapsto> cl) \<Longrightarrow> (\<And>r k. cl \<noteq> AwaitingFetch r k) \<Longrightarrow>
   (\<And>c'. c' \<noteq> c \<Longrightarrow> timers s' c' = timers s c') \<Longrightarrow> waiting_armed s'"
  unfolding waiting_armed_def by (auto split: if_splits)

lemma wa_cancelDuplicate: "waiting_armed s \<Longrightarrow> waiting_armed (cancelDuplicate k s)"
  by (simp add: cancelDuplicate_def wa_abort split: option.splits)

lemma wa_fetch_arm:
  assumes "waiting_armed s"
  shows "waiting_armed (fetch c r k (armTimeout c r s))"
  using assms unfolding waiting_armed_def
  by (auto simp: fetch_calls split: option.splits if_splits)

lemma wa_executeRequest:
  assumes "waiting_armed s"
  shows "waiting_armed (executeRequest c r s)"
proof (cases rule: executeRequest_cases[of s r c])
  case (mw_failed cs e)
  show ?thesis
    by (rule wa_not_waiting[OF assms, of _ c "Returned (Inl e)"]) (simp_all add: mw_failed(2))
next
  case (hit cs request cached s1)
  have s1: "calls s1 = calls s" "timers s1 = timers s"
    using getCachedResponse_fields(5,6)[of "getCacheKey request" "s\<lparr>trace := trace s @ map RequestMw cs\<rparr>"]
    by (simp_all add: hit(3))
  show ?thesis
    by (rule wa_not_waiting[OF assms, of _ c "Returned (fst (clone cached s1))"])
       (simp_all add: hit(4) s1)
next
  case (miss cs request s1)
  have "calls s1 = calls s" "timers s1 = timers s"
    by (simp_all add: miss(2))
  with assms have "waiting_armed s1" by (rule wa_cong)
  then have "waiting_armed (cancelDuplicate (getCacheKey request) s1)"
    by (rule wa_cancelDuplicate)
  then have "waiting_armed (registerPendingRequest (getCacheKey request) (abortController request)
               (cancelDuplicate (getCacheKey request) s1))"
    by (rule wa_cong) simp_all
  then show ?thesis unfolding miss(4) by (rule wa_fetch_arm)
qed

lemma wa_fetch_settles:
  "waiting_armed s \<Longrightarrow> waiting_armed (fetch_settles c outcome s)"
  unfolding waiting_armed_def
  by (auto simp: fetch_settles_def split: option.splits call.splits sum.splits prod.splits if_splits)

lemma wa_resume:
  assumes "waiting_armed s"
  shows "waiting_armed (executeRequest_resume c s)"
proof (cases "\<exists>r k outcome. calls s c = Some (FetchSettled r k outcome)")
  case False
  then have "executeRequest_resume c s = s"
    by (auto simp: executeRequest_resume_def split: option.splits call.splits)
  with assms show ?thesis by simp
next
  case True
  then obtain r k outcome where c: "calls s c = Some (FetchSettled r k outcome)" by blast
  show ?thesis
    by (rule wa_not_waiting[OF assms resume_fields(1)[OF c]]) (simp_all add: resume_fields(3)[OF c])
qed

lemma wa_timer:
  assumes a: "waiting_armed s" and n: "waiting_not_aborted s"
  shows "waiting_armed (timer_fires c s)"
proof (cases "timers s c")
  case None
  with a show ?thesis by (simp add: timer_fires_def)
next
  case (Some p)
  obtain due r' where p: "p = (due, r')" by (cases p)
  show ?thesis
  proof (cases "due \<le> now s")
    case False
    with a Some p show ?thesis by (simp add: timer_fires_def)
  next
    case True
    let ?s0 = "s\<lparr>timers := (timers s)(c := None)\<rparr>"
    let ?e = "TimeoutError (timeout_message r')"
    have eq: "timer_fires c s = abort (abortController r') ?e ?s0"
      using Some p True by (simp add: timer_fires_def timeout_callback_def)
    show ?thesis unfolding eq waiting_armed_def
    proof (intro allI impI, elim conjE)
      fix c' r k t
      assume w: "calls (abort (abortController r') ?e ?s0) c' = Some (AwaitingFetch r k)"
        and t: "timeout r = Some t" "0 < t"
      from w have w0: "calls s c' = Some (AwaitingFetch r k)"
        and ne: "aborted s (abortController r') = None \<longrightarrow> abortController r \<noteq> abortController r'"
        by (simp_all add: abort_calls_Awaiting)
      from a w0 t obtain due' where tm: "timers s c' = Some (due', r)"
        unfolding waiting_armed_def by blast
      from n w0 have na: "aborted s (abortController r) = None"
        unfolding waiting_not_aborted_def by blast
      have "c' \<noteq> c"
      proof
        assume "c' = c"
        with tm Some p have "r' = r" by simp
        with ne na show False by simp
      qed
      with tm show "\<exists>due. timers (abort (abortController r') ?e ?s0) c' = Some (due, r)"
        by simp
    qed
  qed
qed

lemma wa_reachable: "reachable s \<Longrightarrow> waiting_armed s"
proof (induction rule: reachable.induct)
  case (r_new t)
  show ?case by (simp add: waiting_armed_def new_FluidFetch_def)
next
  case (r_execute s c r)
  then show ?case by (simp add: wa_executeRequest)
next
  case (r_settle s c outcome)
  then show ?case by (simp add: wa_fetch_settles)
next
  case (r_resume s c)
  then show ?case by (simp add: wa_resume)
next
  case (r_timer s c)
  then show ?case by (simp add: wa_timer wna_reachable)
next
  case (r_cancel s r)
  then show ?case by (simp add: cancel_def wa_abort)
next
  case (r_advance s d)
  then show ?case by (simp add: advance_def waiting_armed_def)
qed (simp_all add: waiting_armed_def)

subsection \<open>call_key\<close>

lemma reject_waiting_Settled:
  "reject_waiting h e cl = FetchSettled r k outcome \<longleftrightarrow>
     cl = FetchSettled r k outcome \<or> (cl = AwaitingFetch r k \<and> abortController r = h \<and> outcome = Inl e)"
  by (cases cl) (auto simp: reject_waiting_def)

lemma abort_calls_Settled:
  "calls (abort h e s) c = Some (FetchSettled r k outcome) \<longleftrightarrow>
     calls s c = Some (FetchSettled r k outcome)
     \<or> (aborted s h = None \<and> calls s c = Some (AwaitingFetch r k) \<and> abortController r = h
          \<and> outcome = Inl e)"
  by (cases "aborted s h") (auto simp: abort_calls reject_waiting_Settled)

lemma ck_abort: "call_key s \<Longrightarrow> call_key (abort h e s)"
  unfolding call_key_def by (simp add: abort_calls_Awaiting abort_calls_Settled) blast

lemma ck_cong: "call_key s \<Longrightarrow> calls s' = calls s \<Longrightarrow> call_key s'"
  by (simp add: call_key_def)

lemma ck_update:
  "call_key s \<Longrightarrow> calls s' = (calls s)(c \<mapsto> cl) \<Longrightarrow>
   (\<And>r k. cl = AwaitingFetch r k \<Longrightarrow> k = getCacheKey r) \<Longrightarrow>
   (\<And>r k outcome. cl = FetchSettled r k outcome \<Longrightarrow> k = getCacheKey r) \<Longrightarrow> call_key s'"
  unfolding call_key_def by (auto split: if_splits)

lemma ck_cancelDuplicate: "call_key s \<Longrightarrow> call_key (cancelDuplicate k s)"
  by (simp add: cancelDuplicate_def ck_abort split: option.splits)

lemma ck_executeRequest:
  assumes "call_key s"
  shows "call_key (executeRequest c r s)"
proof (cases rule: executeRequest_cases[of s r c])
  case (mw_failed cs e)
  show ?thesis
    by (rule ck_update[OF assms, of _ c "Returned (Inl e)"]) (simp_all add: mw_failed(2))
next
  case (hit cs request cached s1)
  have s1: "calls s1 = calls s"
    using getCachedResponse_fields(6)[of "getCacheKey request" "s\<lparr>trace := trace s @ map RequestMw cs\<rparr>"]
    by (simp add: hit(3))
  show ?thesis
    by (rule ck_update[OF assms, of _ c "Returned (fst (clone cached s1))"])
       (simp_all add: hit(4) s1)
next
  case (miss cs request s1)
  let ?k = "getCacheKey request"
  let ?s3 = "armTimeout c request
      (registerPendingRequest ?k (abortController request) (cancelDuplicate ?k s1))"
  have "calls s1 = calls s" by (simp add: miss(2))
  with assms have "call_key s1" by (rule ck_cong)
  then have "call_key (cancelDuplicate ?k s1)" by (rule ck_cancelDuplicate)
  then have "call_key ?s3" by (rule ck_cong) simp
  then show ?thesis
    unfolding miss(4)
    by (rule ck_update[where c = c]) (auto simp: fetch_calls split: option.splits)
qed

lemma ck_fetch_settles: "call_key s \<Longrightarrow> call_key (fetch_settles c outcome s)"
  unfolding call_key_def
  by (auto simp: fetch_settles_def split: option.splits call.splits sum.splits prod.splits if_splits)

lemma ck_resume:
  assumes "call_key s"
  shows "call_key (executeRequest_resume c s)"
proof (cases "\<exists>r k outcome. calls s c = Some (FetchSettled r k outcome)")
  case False
  then have "executeRequest_resume c s = s"
    by (auto simp: executeRequest_resume_def split: option.splits call.splits)
  with assms show ?thesis by simp
next
  case True
  then obtain r k outcome where c: "calls s c = Some (FetchSettled r k outcome)" by blast
  show ?thesis
    by (rule ck_update[OF assms resume_fields(1)[OF c]]) simp_all
qed

lemma ck_timer: "call_key s \<Longrightarrow> call_key (timer_fires c s)"
proof -
  assume a: "call_key s"
  have "\<And>x. call_key (s\<lparr>timers := x\<rparr>)" using a by (simp add: call_key_def)
  then show ?thesis using a
    by (auto simp: timer_fires_def timeout_callback_def ck_abort split: option.splits)
qed

lemma ck_reachable: "reachable s \<Longrightarrow> call_key s"
proof (induction rule: reachable.induct)
  case (r_new t)
  show ?case by (simp add: call_key_def new_FluidFetch_def)
next
  case (r_execute s c r)
  then show ?case by (simp add: ck_executeRequest)
next
  case (r_settle s c outcome)
  then show ?case by (simp add: ck_fetch_settles)
next
  case (r_resume s c)
  then show ?case by (simp add: ck_resume)
next
  case (r_timer s c)
  then show ?case by (simp add: ck_timer)
next
  case (r_cancel s r)
  then show ?case by (simp add: cancel_def ck_abort)
next
  case (r_advance s d)
  then show ?case by (simp add: advance_def call_key_def)
qed (simp_all add: call_key_def)

section \<open>The executor, path by path\<close>

lemma abort_trace_irrelevant:
  "calls (abort h e (s\<lparr>trace := tr\<rparr>)) = calls (abort h e s)"
  "aborted (abort h e (s\<lparr>trace := tr\<rparr>)) = aborted (abort h e s)"
  by (simp_all add: abort_def split: option.splits)

lemma abort_cache_irrelevant:
  "calls (abort h e (s\<lparr>cache := x\<rparr>)) = calls (abort h e s)"
  "aborted (abort h e (s\<lparr>cache := x\<rparr>)) = aborted (abort h e s)"
  by (simp_all add: abort_def split: option.splits)

lemma executeRequest_mw_failed:
  assumes "runMiddlewares (middlewares_request s) r = (cs, Inl e)"
  shows "executeRequest c r s =
     s\<lparr>calls := (calls s)(c \<mapsto> Returned (Inl e)), trace := trace s @ map RequestMw cs\<rparr>"
  using assms by (simp add: executeRequest_def)

lemma executeRequest_hit:
  assumes run: "runMiddlewares (middlewares_request s) r = (cs, Inr q)"
    and dir: "truthy (Request.cache q)"
    and entry: "cache s (getCacheKey q) = Some entry" and live: "now s < expires entry"
  shows "executeRequest c r s =
     (let s1 = s\<lparr>trace := trace s @ map RequestMw cs\<rparr>
      in (snd (clone (response entry) s1))
           \<lparr>calls := (calls s)(c \<mapsto> Returned (fst (clone (response entry) s1)))\<rparr>)"
  using assms
  by (simp add: executeRequest_def Let_def getCachedResponse_def case_prod_beta)

lemma executeRequest_miss:
  assumes run: "runMiddlewares (middlewares_request s) r = (cs, Inr q)"
    and miss: "\<not> cache_hit s q"
  shows "executeRequest c r s =
     fetch c q (getCacheKey q)
       (armTimeout c q
         (registerPendingRequest (getCacheKey q) (abortController q)
           (cancelDuplicate (getCacheKey q)
              (s\<lparr>trace := trace s @ map RequestMw cs,
                 cache := (if truthy (Request.cache q) then (cache s)(getCacheKey q := None)
                           else cache s)\<rparr>))))"
proof (cases "truthy (Request.cache q)")
  case False
  with run show ?thesis by (simp add: executeRequest_def Let_def)
next
  case True
  show ?thesis
  proof (cases "cache s (getCacheKey q)")
    case None
    then have "(cache s)(getCacheKey q := None) = cache s" by (auto simp: fun_upd_idem_iff)
    with run True None show ?thesis
      by (simp add: executeRequest_def Let_def getCachedResponse_def)
  next
    case (Some entry)
    with miss True have "\<not> now s < expires entry" by (simp add: cache_hit_def)
    with run True Some show ?thesis
      by (simp add: executeRequest_def Let_def getCachedResponse_def)
  qed
qed

lemma executeRequest_miss_fields:
  assumes run: "runMiddlewares (middlewares_request s) r = (cs, Inr q)"
    and miss: "\<not> cache_hit s q"
  shows "pendingRequests (executeRequest c r s)
           = (pendingRequests s)(getCacheKey q \<mapsto> abortController q)"
    and "trace (executeRequest c r s) = trace s @ map RequestMw cs
           @ (case pendingRequests s (getCacheKey q) of
                Some h \<Rightarrow> [Abort h AbortError] | None \<Rightarrow> [])
           @ [Register (getCacheKey q) (abortController q), Fetch c q]"
    and "timers (executeRequest c r s)
           = (case timeout q of
                Some t \<Rightarrow> if 0 < t then (timers s)(c \<mapsto> (now s + t, q)) else timers s
              | None \<Rightarrow> timers s)"
    and "aborted (executeRequest c r s)
           = (case pendingRequests s (getCacheKey q) of
                Some h \<Rightarrow> aborted (abort h AbortError s) | None \<Rightarrow> aborted s)"
    and "calls (executeRequest c r s) c
           = Some (case aborted (executeRequest c r s) (abortController q) of
                     Some reason \<Rightarrow> FetchSettled q (getCacheKey q) (Inl reason)
                   | None \<Rightarrow> AwaitingFetch q (getCacheKey q))"
    and "c' \<noteq> c \<Longrightarrow> calls (executeRequest c r s) c'
           = (case pendingRequests s (getCacheKey q) of
                Some h \<Rightarrow> calls (abort h AbortError s) c' | None \<Rightarrow> calls s c')"
    and "cache (executeRequest c r s)
           = (if truthy (Request.cache q) then (cache s)(getCacheKey q := None) else cache s)"
    and "now (executeRequest c r s) = now s"
    and "nextObj (executeRequest c r s) = nextObj s"
  unfolding executeRequest_miss[OF run miss]
  by (simp_all add: fetch_calls cancelDuplicate_def getPendingRequest_def
        abort_trace_irrelevant abort_cache_irrelevant split: option.splits)

lemma processResponse_store:
  assumes "runMiddlewares (middlewares_response s) resp = (cs, Inr p)"
    and "truthy (Request.cache q)" and "\<not> bodyUsed p"
  shows "processResponse q k resp s =
     (Inr p, cacheResponse k (p\<lparr>obj := nextObj s\<rparr>) (cacheTtl (Request.cache q))
               (s\<lparr>trace := trace s @ map ResponseMw cs, nextObj := Suc (nextObj s)\<rparr>))"
  using assms by (simp add: processResponse_def clone_def Let_def)

lemma cacheTtl_truthy:
  "truthy d \<Longrightarrow> (case cacheTtl d of Some n \<Rightarrow> n | None \<Rightarrow> 3600000)
     = (case d of Some (N n) \<Rightarrow> n | _ \<Rightarrow> 3600000)"
  by (cases d rule: truthy.cases) (simp_all add: cacheTtl_def)

lemma run_at_handler:
  assumes chain: "handlers m = pre @ h # post"
    and reach: "runLoop pre v0 = (cs0, Inr v)"
  shows "runMiddlewares m v0 =
      (case snd (runHandler h v) of
         Inl e \<Rightarrow> (cs0 @ fst (runHandler h v), Inl e)
       | Inr v' \<Rightarrow> (cs0 @ fst (runHandler h v) @ fst (runLoop post v'), snd (runLoop post v')))"
  using reach
  by (simp add: runMiddlewares_def chain runLoop_append[of pre "h # post"] runLoop_Cons
           del: runLoop.simps split: sum.splits)

text \<open>
  Once the transport of a call has settled, nothing but the resumption of that very
  call changes what the call will do: the other steps leave it as it is.
\<close>

lemma settled_stable:
  assumes "calls s a = Some (FetchSettled ra k outcome)"
  shows "calls (fetch_settles c result s) a = calls s a"
    and "c \<noteq> a \<Longrightarrow> calls (executeRequest_resume c s) a = calls s a"
    and "calls (timer_fires c s) a = calls s a"
    and "calls (cancel r s) a = calls s a"
    and "calls (advance d s) a = calls s a"
    and "c \<noteq> a \<Longrightarrow> calls (executeRequest c r s) a = calls s a"
proof -
  have ab: "calls (abort h e s') a = calls s' a" if "calls s' a = calls s a" for h e s'
    using assms that by (cases "aborted s' h") (simp_all add: abort_calls reject_waiting_def)
  show "calls (fetch_settles c result s) a = calls s a"
    using assms
    by (auto simp: fetch_settles_def split: option.splits call.splits sum.splits prod.splits)
  show "calls (executeRequest_resume c s) a = calls s a" if "c \<noteq> a"
  proof (cases "\<exists>r' k' o'. calls s c = Some (FetchSettled r' k' o')")
    case False
    then have "executeRequest_resume c s = s"
      by (auto simp: executeRequest_resume_def split: option.splits call.splits)
    then show ?thesis by simp
  next
    case True
    then obtain r' k' o' where c: "calls s c = Some (FetchSettled r' k' o')" by blast
    show ?thesis using that by (simp add: resume_fields(1)[OF c])
  qed
  show "calls (timer_fires c s) a = calls s a"
    using ab[of "s\<lparr>timers := (timers s)(c := None)\<rparr>"]
    by (auto simp: timer_fires_def timeout_callback_def split: option.splits)
  show "calls (cancel r s) a = calls s a"
    using ab[of s] by (simp add: cancel_def)
  show "calls (advance d s) a = calls s a"
    by (simp add: advance_def)
  show "calls (executeRequest c r s) a = calls s a" if "c \<noteq> a"
  proof (cases rule: executeRequest_cases[of s r c])
    case (mw_failed cs e)
    then show ?thesis using that by simp
  next
    case (hit cs request cached s1)
    have "calls s1 = calls s"
      using getCachedResponse_fields(6)
              [of "getCacheKey request" "s\<lparr>trace := trace s @ map RequestMw cs\<rparr>"]
      by (simp add: hit(3))
    then show ?thesis using that by (simp add: hit(4))
  next
    case (miss cs request s1)
    have s1: "calls s1 a = calls s a" by (simp add: miss(2))
    have "calls (cancelDuplicate (getCacheKey request) s1) a = calls s a"
      using ab[OF s1] s1 by (simp add: cancelDuplicate_def split: option.splits)
    then show ?thesis using that by (simp add: miss(4) fetch_calls)
  qed
qed

section \<open>The concrete runs\<close>

lemma getCacheKey_get_users [simp]: "getCacheKey (get_users h) = ex_key"
  by (simp add: get_users_def getCacheKey_def show_method_def JSON_stringify_def ex_key_def)

lemma getCacheKey_updates [simp]:
  "getCacheKey (r\<lparr>Request.cache := x\<rparr>) = getCacheKey r"
  "getCacheKey (r\<lparr>timeout := y\<rparr>) = getCacheKey r"
  "getCacheKey (r\<lparr>headers := z\<rparr>) = getCacheKey r"
  by (simp_all add: getCacheKey_def)

lemma get_users_fields [simp]:
  "Request.cache (get_users h) = None" "timeout (get_users h) = None"
  "abortController (get_users h) = h"
  by (simp_all add: get_users_def)

lemma run_no_middleware [simp]: "runMiddlewares new_MiddlewareManager v = ([], Inr v)"
  by (simp add: runMiddlewares_def new_MiddlewareManager_def)

lemma dd1_eq:
  "dd1 = \<lparr>cache = Map.empty, pendingRequests = [ex_key \<mapsto> 1],
      middlewares_request = new_MiddlewareManager,
      middlewares_response = new_MiddlewareManager,
      aborted = Map.empty, timers = Map.empty,
      calls = [0 \<mapsto> AwaitingFetch (get_users 1) ex_key],
      trace = [Register ex_key 1, Fetch 0 (get_users 1)],
      now = 1000, nextObj = 0\<rparr>"
  by (simp add: dd1_def new_FluidFetch_def executeRequest_def Let_def cancelDuplicate_def
        getPendingRequest_def registerPendingRequest_def armTimeout_def fetch_def)

lemma dd2_eq:
  "dd2 = \<lparr>cache = Map.empty, pendingRequests = [ex_key \<mapsto> 2],
      middlewares_request = new_MiddlewareManager,
      middlewares_response = new_MiddlewareManager,
      aborted = [1 \<mapsto> AbortError], timers = Map.empty,
      calls = [0 \<mapsto> FetchSettled (get_users 1) ex_key (Inl AbortError),
               1 \<mapsto> AwaitingFetch (get_users 2) ex_key],
      trace = [Register ex_key 1, Fetch 0 (get_users 1),
               Abort 1 AbortError, Register ex_key 2, Fetch 1 (get_users 2)],
      now = 1000, nextObj = 0\<rparr>"
  by (auto simp: dd2_def dd1_eq executeRequest_def Let_def cancelDuplicate_def
        getPendingRequest_def registerPendingRequest_def armTimeout_def fetch_def abort_def
        reject_waiting_def fun_eq_iff)

lemma reachable_dd1: "reachable dd1"
  unfolding dd1_def by (rule r_execute[OF r_new]) (simp add: new_FluidFetch_def)

lemma reachable_dd2: "reachable dd2"
  unfolding dd2_def by (rule r_execute[OF reachable_dd1]) (simp add: dd1_eq)

lemmas exec_defs = executeRequest_def Let_def cancelDuplicate_def
        getPendingRequest_def registerPendingRequest_def armTimeout_def fetch_def abort_def
        reject_waiting_def getCachedResponse_def clone_def setTimeout_def

lemmas resume_defs = executeRequest_resume_def processResponse_def cleanup_def
        removePendingRequest_def clearTimeout_def cacheResponse_def cacheTtl_def clone_def Let_def

lemma dd1s_eq:
  "dd1s = \<lparr>cache = Map.empty, pendingRequests = [ex_key \<mapsto> 1],
      middlewares_request = new_MiddlewareManager,
      middlewares_response = new_MiddlewareManager,
      aborted = Map.empty, timers = Map.empty,
      calls = [0 \<mapsto> FetchSettled (get_users 1) ex_key (Inr ex_response)],
      trace = [Register ex_key 1, Fetch 0 (get_users 1)],
      now = 1000, nextObj = 1\<rparr>"
  by (simp add: dd1s_def dd1_eq fetch_settles_def ex_response_def)

lemma dd2s_eq:
  "dd2s = \<lparr>cache = Map.empty, pendingRequests = [ex_key \<mapsto> 2],
      middlewares_request = new_MiddlewareManager,
      middlewares_response = new_MiddlewareManager,
      aborted = [1 \<mapsto> AbortError], timers = Map.empty,
      calls = [0 \<mapsto> FetchSettled (get_users 1) ex_key (Inr ex_response),
               1 \<mapsto> AwaitingFetch (get_users 2) ex_key],
      trace = [Register ex_key 1, Fetch 0 (get_users 1),
               Abort 1 AbortError, Register ex_key 2, Fetch 1 (get_users 2)],
      now = 1000, nextObj = 1\<rparr>"
  by (auto simp: dd2s_def dd1s_eq exec_defs fun_eq_iff)

lemma timeout_users_fields [simp]:
  "getCacheKey timeout_users = ex_key" "timeout timeout_users = Some 10"
  "abortController timeout_users = 1" "Request.cache timeout_users = None"
  by (simp_all add: timeout_users_def)

lemma tm1_eq:
  "tm1 = \<lparr>cache = Map.empty, pendingRequests = [ex_key \<mapsto> 1],
      middlewares_request = new_MiddlewareManager,
      middlewares_response = new_MiddlewareManager,
      aborted = Map.empty, timers = [0 \<mapsto> (1010, timeout_users)],
      calls = [0 \<mapsto> AwaitingFetch timeout_users ex_key],
      trace = [Register ex_key 1, Fetch 0 timeout_users],
      now = 1000, nextObj = 0\<rparr>"
  by (simp add: tm1_def new_FluidFetch_def exec_defs)

lemma tm2_eq:
  "tm2 = \<lparr>cache = Map.empty, pendingRequests = [ex_key \<mapsto> 1],
      middlewares_request = new_MiddlewareManager,
      middlewares_response = new_MiddlewareManager,
      aborted = Map.empty, timers = [0 \<mapsto> (1010, timeout_users)],
      calls = [0 \<mapsto> AwaitingFetch timeout_users ex_key],
      trace = [Register ex_key 1, Fetch 0 timeout_users],
      now = 1010, nextObj = 0\<rparr>"
  by (simp add: tm2_def tm1_eq advance_def)

lemma timeout_message_users: "timeout_message timeout_users = ''Request timed out after 10ms''"
  by (simp add: timeout_message_def show_int_def show_nat.simps)

lemma cached_users_fields [simp]:
  "getCacheKey (cached_users h) = ex_key" "timeout (cached_users h) = None"
  "abortController (cached_users h) = h" "Request.cache (cached_users h) = Some (B True)"
  by (simp_all add: cached_users_def)

lemma ch1_eq:
  "ch1 = \<lparr>cache = Map.empty, pendingRequests = [ex_key \<mapsto> 1],
      middlewares_request = new_MiddlewareManager,
      middlewares_response = new_MiddlewareManager,
      aborted = Map.empty, timers = Map.empty,
      calls = [0 \<mapsto> AwaitingFetch (cached_users 1) ex_key],
      trace = [Register ex_key 1, Fetch 0 (cached_users 1)],
      now = 1000, nextObj = 0\<rparr>"
  by (simp add: ch1_def new_FluidFetch_def exec_defs)

lemma ch2_eq:
  "ch2 = \<lparr>cache = Map.empty, pendingRequests = [ex_key \<mapsto> 1],
      middlewares_request = new_MiddlewareManager,
      middlewares_response = new_MiddlewareManager,
      aborted = Map.empty, timers = Map.empty,
      calls = [0 \<mapsto> FetchSettled (cached_users 1) ex_key (Inr ex_response)],
      trace = [Register ex_key 1, Fetch 0 (cached_users 1)],
      now = 1000, nextObj = 1\<rparr>"
  by (simp add: ch2_def ch1_eq fetch_settles_def ex_response_def)

lemma ch3_eq:
  "ch3 = \<lparr>cache = [ex_key \<mapsto> \<lparr>response = ex_response\<lparr>obj := 1\<rparr>, expires = 3601000\<rparr>],
      pendingRequests = Map.empty,
      middlewares_request = new_MiddlewareManager,
      middlewares_response = new_MiddlewareManager,
      aborted = Map.empty, timers = Map.empty,
      calls = [0 \<mapsto> Returned (Inr ex_response)],
      trace = [Register ex_key 1, Fetch 0 (cached_users 1), Remove ex_key],
      now = 1000, nextObj = 2\<rparr>"
  by (simp add: ch3_def ch2_eq resume_defs ex_response_def)

lemma ch4_eq:
  "ch4 = \<lparr>cache = [ex_key \<mapsto> \<lparr>response = ex_response\<lparr>obj := 1\<rparr>, expires = 3601000\<rparr>],
      pendingRequests = Map.empty,
      middlewares_request = new_MiddlewareManager,
      middlewares_response = new_MiddlewareManager,
      aborted = Map.empty, timers = Map.empty,
      calls = [0 \<mapsto> Returned (Inr ex_response)],
      trace = [Register ex_key 1, Fetch 0 (cached_users 1), Remove ex_key],
      now = 3600999, nextObj = 2\<rparr>"
  by (simp add: ch4_def ch3_eq advance_def)

lemma reachable_tm2: "reachable tm2"
  unfolding tm2_def tm1_def
  by (rule r_advance[OF r_execute[OF r_new]]) (simp_all add: new_FluidFetch_def)

lemma reachable_ch4: "reachable ch4"
  unfolding ch4_def ch3_def ch2_def ch1_def
  by (rule r_advance[OF r_resume[OF r_settle[OF r_execute[OF r_new]]]])
     (simp_all add: new_FluidFetch_def)

lemma cache_false_users_fields [simp]:
  "getCacheKey (cache_false_users h) = ex_key" "timeout (cache_false_users h) = None"
  "abortController (cache_false_users h) = h"
  "Request.cache (cache_false_users h) = Some (N 3600000)"
  by (simp_all add: cache_false_users_def FluidFetchRequest_cache_def)

lemma cf2_eq:
  "cf2 = \<lparr>cache = Map.empty, pendingRequests = [ex_key \<mapsto> 1],
      middlewares_request = new_MiddlewareManager,
      middlewares_response = new_MiddlewareManager,
      aborted = Map.empty, timers = Map.empty,
      calls = [0 \<mapsto> FetchSettled (cache_false_users 1) ex_key (Inr ex_response)],
      trace = [Register ex_key 1, Fetch 0 (cache_false_users 1)],
      now = 1000, nextObj = 1\<rparr>"
  by (simp add: cf2_def new_FluidFetch_def exec_defs fetch_settles_def ex_response_def)

lemma cf3_eq:
  "cf3 = \<lparr>cache = [ex_key \<mapsto> \<lparr>response = ex_response\<lparr>obj := 1\<rparr>, expires = 3601000\<rparr>],
      pendingRequests = Map.empty,
      middlewares_request = new_MiddlewareManager,
      middlewares_response = new_MiddlewareManager,
      aborted = Map.empty, timers = Map.empty,
      calls = [0 \<mapsto> Returned (Inr ex_response)],
      trace = [Register ex_key 1, Fetch 0 (cache_false_users 1), Remove ex_key],
      now = 1000, nextObj = 2\<rparr>"
  by (simp add: cf3_def cf2_eq resume_defs ex_response_def)

lemma mw_state_handlers:
  "handlers (middlewares_request mw_state) =
     [\<lparr>fulfilled = add_trace_header, rejected = None, handler_id = 0\<rparr>]
       @ \<lparr>fulfilled = throwing, rejected = None, handler_id = 1\<rparr> # []"
  by (simp add: mw_state_def new_FluidFetch_def apply_ops_def use_def new_MiddlewareManager_def)

lemma br0_eq:
  "br0 = \<lparr>cache = Map.empty, pendingRequests = Map.empty,
      middlewares_request = new_MiddlewareManager,
      middlewares_response =
        \<lparr>handlers = [\<lparr>fulfilled = read_body, rejected = None, handler_id = 0\<rparr>],
         idCounter = 1\<rparr>,
      aborted = Map.empty, timers = Map.empty, calls = Map.empty, trace = [],
      now = 1000, nextObj = 0\<rparr>"
  by (simp add: br0_def new_FluidFetch_def use_def new_MiddlewareManager_def)

lemma br2_eq:
  "br2 = \<lparr>cache = Map.empty, pendingRequests = [ex_key \<mapsto> 1],
      middlewares_request = new_MiddlewareManager,
      middlewares_response =
        \<lparr>handlers = [\<lparr>fulfilled = read_body, rejected = None, handler_id = 0\<rparr>],
         idCounter = 1\<rparr>,
      aborted = Map.empty, timers = Map.empty,
      calls = [0 \<mapsto> FetchSettled (cached_users 1) ex_key (Inr ex_response)],
      trace = [Register ex_key 1, Fetch 0 (cached_users 1)],
      now = 1000, nextObj = 1\<rparr>"
  by (simp add: br2_def br1_def br0_eq exec_defs fetch_settles_def ex_response_def)

lemma reachable_br2: "reachable br2"
proof -
  have "reachable br0"
    using r_response_mw[OF r_new[of 1000], where ?op2.0 = "Use read_body None"]
    by (simp add: br0_def new_FluidFetch_def)
  then have "reachable br1"
    unfolding br1_def by (rule r_execute) (simp add: br0_eq)
  then show ?thesis unfolding br2_def by (rule r_settle)
qed

section \<open>The claims\<close>

subsection \<open>Middleware chain\<close>

text \<open>
  C6. After any sequence of \<open>use\<close> and \<open>eject\<close> calls on a new manager, the handler
  list is exactly the list of the handlers that were registered and not removed
  afterwards, in registration order (\<open>remaining 0 ops\<close>). A run calls the transforms
  of these handlers in that order: the ids of the transforms called are a prefix of
  the ids of the list, and the whole list when the run returns a value. Ejecting an id
  that no handler has leaves the manager as it is, and a run of an empty chain calls
  nothing and returns the initial value.
\<close>

theorem middleware_run_after_use_eject:
  fixes ops :: "'a mw_op list" and m :: "'a MiddlewareManager"
  shows "handlers (apply_ops ops new_MiddlewareManager) = remaining 0 ops
    \<and> prefix (transforms (fst (runMiddlewares (apply_ops ops new_MiddlewareManager) v)))
         (map handler_id (remaining 0 ops))
    \<and> (\<forall>w. snd (runMiddlewares (apply_ops ops new_MiddlewareManager) v) = Inr w \<longrightarrow>
         transforms (fst (runMiddlewares (apply_ops ops new_MiddlewareManager) v))
           = map handler_id (remaining 0 ops))
    \<and> (i \<notin> handler_id ` set (handlers m) \<longrightarrow> eject i m = m)
    \<and> (handlers m = [] \<longrightarrow> runMiddlewares m v = ([], Inr v))"
proof -
  have h: "handlers (apply_ops ops new_MiddlewareManager) = remaining 0 ops"
    using apply_ops_remaining[OF ids_ok_new, of ops]
    by (simp add: new_MiddlewareManager_def)
  have e: "i \<notin> handler_id ` set (handlers m) \<longrightarrow> eject i m = m"
  proof
    assume "i \<notin> handler_id ` set (handlers m)"
    then have "findIndex (\<lambda>h. handler_id h = i) (handlers m) = None"
      by (auto simp: findIndex_None)
    then show "eject i m = m" by (simp add: eject_def)
  qed
  show ?thesis
    using h e runLoop_prefix[of "remaining 0 ops" v] runLoop_all[of "remaining 0 ops" v]
    by (simp add: runMiddlewares_def)
qed

theorem middleware_run_after_use_eject_witness:
  "map handler_id (remaining 0 ex_ops) = [1, 2]
   \<and> runMiddlewares (apply_ops ex_ops new_MiddlewareManager) 1 = ([Fulfilled 1, Fulfilled 2], Inr 12)
   \<and> transforms [Fulfilled 1, Fulfilled 2] = map handler_id (remaining 0 ex_ops)
   \<and> 7 \<notin> handler_id ` set (handlers (apply_ops ex_ops new_MiddlewareManager))
   \<and> eject 7 (apply_ops ex_ops new_MiddlewareManager) = apply_ops ex_ops new_MiddlewareManager
   \<and> handlers (clear (apply_ops ex_ops new_MiddlewareManager)) = []
   \<and> runMiddlewares (clear (apply_ops ex_ops new_MiddlewareManager)) 5 = ([], Inr 5)"
  using middleware_run_after_use_eject
          [of ex_ops 1 7 "apply_ops ex_ops new_MiddlewareManager"]
        middleware_run_after_use_eject
          [of ex_ops 5 7 "clear (apply_ops ex_ops new_MiddlewareManager)"]
  by (simp add: ex_ops_def apply_ops_def new_MiddlewareManager_def use_def eject_def
        splice1_def runMiddlewares_def runHandler_def clear_def)

text \<open>
  C7. In a run of the chain \<open>pre @ h # post\<close> that reaches the handler \<open>h\<close> with the
  current value \<open>v\<close>, the calls made for \<open>h\<close> follow those made before; among them
  is a call of the recovery function of \<open>h\<close> exactly when the transform of \<open>h\<close> fails
  on \<open>v\<close> (and \<open>h\<close> has a recovery function). When the recovery function returns
  \<open>v'\<close>, the run goes on through \<open>post\<close> with \<open>v'\<close> as the current value. When the
  transform fails and there is no recovery function, the run ends with that failure
  and no function of \<open>post\<close> is called.
\<close>

theorem recovery_iff_transform_fails:
  assumes chain: "handlers m = pre @ h # post"
    and reach: "runLoop pre v0 = (cs0, Inr v)"
  shows "prefix (cs0 @ fst (runHandler h v)) (fst (runMiddlewares m v0))
    \<and> (Rejected (handler_id h) \<in> set (fst (runHandler h v))
          \<longleftrightarrow> (\<exists>e. fulfilled h v = Inl e) \<and> rejected h \<noteq> None)
    \<and> (\<forall>e r v'. fulfilled h v = Inl e \<and> rejected h = Some r \<and> r e = Inr v' \<longrightarrow>
          runMiddlewares m v0 =
            (cs0 @ [Fulfilled (handler_id h), Rejected (handler_id h)] @ fst (runLoop post v'),
             snd (runLoop post v')))
    \<and> (\<forall>e. fulfilled h v = Inl e \<and> rejected h = None \<longrightarrow>
          runMiddlewares m v0 = (cs0 @ [Fulfilled (handler_id h)], Inl e))"
proof -
  note run = run_at_handler[OF chain reach]
  have p: "prefix (cs0 @ fst (runHandler h v)) (fst (runMiddlewares m v0))"
    by (simp add: run split: sum.splits)
  have inv: "Rejected (handler_id h) \<in> set (fst (runHandler h v))
          \<longleftrightarrow> (\<exists>e. fulfilled h v = Inl e) \<and> rejected h \<noteq> None"
    by (auto simp: runHandler_def split: sum.splits option.splits)
  have recov: "\<forall>e r v'. fulfilled h v = Inl e \<and> rejected h = Some r \<and> r e = Inr v' \<longrightarrow>
          runMiddlewares m v0 =
            (cs0 @ [Fulfilled (handler_id h), Rejected (handler_id h)] @ fst (runLoop post v'),
             snd (runLoop post v'))"
    by (simp add: run runHandler_def)
  have propag: "\<forall>e. fulfilled h v = Inl e \<and> rejected h = None \<longrightarrow>
          runMiddlewares m v0 = (cs0 @ [Fulfilled (handler_id h)], Inl e)"
    by (simp add: run runHandler_def)
  from p inv recov propag show ?thesis by blast
qed

theorem recovery_iff_transform_fails_witness:
  "runLoop [h_inc] 1 = ([Fulfilled 0], Inr 2)
   \<and> fulfilled h_boom_recover 2 = Inl (Thrown ''boom'')
   \<and> Rejected 1 \<in> set (fst (runHandler h_boom_recover 2))
   \<and> runMiddlewares \<lparr>handlers = [h_inc] @ h_boom_recover # [h_double], idCounter = 3\<rparr> 1
       = ([Fulfilled 0, Fulfilled 1, Rejected 1, Fulfilled 2], Inr 84)
   \<and> fulfilled h_boom 2 = Inl (Thrown ''boom'') \<and> rejected h_boom = None
   \<and> Rejected 1 \<notin> set (fst (runHandler h_boom 2))
   \<and> runMiddlewares \<lparr>handlers = [h_inc] @ h_boom # [h_double], idCounter = 3\<rparr> 1
       = ([Fulfilled 0, Fulfilled 1], Inl (Thrown ''boom''))"
  using recovery_iff_transform_fails
          [of "\<lparr>handlers = [h_inc] @ h_boom_recover # [h_double], idCounter = 3\<rparr>"
              "[h_inc]" h_boom_recover "[h_double]" 1 "[Fulfilled 0]" 2]
        recovery_iff_transform_fails
          [of "\<lparr>handlers = [h_inc] @ h_boom # [h_double], idCounter = 3\<rparr>"
              "[h_inc]" h_boom "[h_double]" 1 "[Fulfilled 0]" 2]
  by (simp add: h_inc_def h_boom_recover_def h_boom_def h_double_def runHandler_def
        runMiddlewares_def)

subsection \<open>Cache store and cache key\<close>

text \<open>
  C9. A lookup in the cache store returns the stored response when there is an entry
  for the key and the current time is strictly before its expiry, and leaves the state
  as it is. When the entry has expired the lookup returns none and deletes the entry,
  which is absent afterwards; nothing else changes. When there is no entry the lookup
  returns none and leaves the state as it is.
\<close>

theorem cache_lookup_evicts_expired:
  "(cache s key = Some entry \<and> now s < expires entry \<longrightarrow>
       getCachedResponse key s = (Some (response entry), s))
   \<and> (cache s key = Some entry \<and> \<not> now s < expires entry \<longrightarrow>
       fst (getCachedResponse key s) = None
       \<and> cache (snd (getCachedResponse key s)) key = None
       \<and> snd (getCachedResponse key s) = s\<lparr>cache := (cache s)(key := None)\<rparr>)
   \<and> (cache s key = None \<longrightarrow> getCachedResponse key s = (None, s))"
  by (simp add: getCachedResponse_def)

theorem cache_lookup_evicts_expired_witness:
  "cache ex_cache_state ''live'' = Some \<lparr>response = ex_response, expires = 1001\<rparr>
   \<and> now ex_cache_state < 1001
   \<and> getCachedResponse ''live'' ex_cache_state = (Some ex_response, ex_cache_state)
   \<and> cache ex_cache_state ''stale'' = Some \<lparr>response = ex_response, expires = 1000\<rparr>
   \<and> \<not> now ex_cache_state < 1000
   \<and> fst (getCachedResponse ''stale'' ex_cache_state) = None
   \<and> cache (snd (getCachedResponse ''stale'' ex_cache_state)) ''stale'' = None
   \<and> cache ex_cache_state ''absent'' = None
   \<and> getCachedResponse ''absent'' ex_cache_state = (None, ex_cache_state)"
  using cache_lookup_evicts_expired
          [of ex_cache_state "''live''" "\<lparr>response = ex_response, expires = 1001\<rparr>"]
        cache_lookup_evicts_expired
          [of ex_cache_state "''stale''" "\<lparr>response = ex_response, expires = 1000\<rparr>"]
        cache_lookup_evicts_expired
          [of ex_cache_state "''absent''" "\<lparr>response = ex_response, expires = 1000\<rparr>"]
  by (simp add: ex_cache_state_def new_FluidFetch_def)

text \<open>
  C5, as the specification states it, does not hold. The two requests below have the
  same method, the same URL and the same mapping of query parameters (\<open>a\<close> to 1 and
  \<open>b\<close> to 2), entered in a different order; \<open>JSON.stringify\<close> follows the order of the
  entries, and their cache keys differ.
\<close>

theorem reordered_params_change_cache_key:
  "http_method ex_ab = http_method ex_ba \<and> url ex_ab = url ex_ba
   \<and> headers ex_ab = headers ex_ba \<and> data ex_ab = data ex_ba
   \<and> map_of (params ex_ab) = map_of (params ex_ba)
   \<and> getCacheKey ex_ab \<noteq> getCacheKey ex_ba"
  by (auto simp: ex_ab_def ex_ba_def get_users_def getCacheKey_def JSON_stringify_def
        json_string_def json_escape_def fun_eq_iff)

text \<open>
  C5, amended. Two request descriptions with the same method, the same URL and the
  same query parameters in the same enumeration order (the same list of entries) have
  the same cache key, whatever their headers, bodies, cache directives, timeouts and
  controllers are.
\<close>

theorem cache_key_ignores_headers_and_body:
  "http_method r1 = http_method r2 \<Longrightarrow> url r1 = url r2 \<Longrightarrow> params r1 = params r2
     \<Longrightarrow> getCacheKey r1 = getCacheKey r2"
  by (simp add: getCacheKey_def)

theorem cache_key_ignores_headers_and_body_witness:
  "http_method ex_page1 = http_method ex_page1_other \<and> url ex_page1 = url ex_page1_other
   \<and> params ex_page1 = params ex_page1_other
   \<and> headers ex_page1 \<noteq> headers ex_page1_other \<and> data ex_page1 \<noteq> data ex_page1_other
   \<and> getCacheKey ex_page1 = getCacheKey ex_page1_other
   \<and> getCacheKey ex_page1 = ''GET:/users:{'' @ [CHR 0x22] @ ''page'' @ [CHR 0x22] @ '':1}''"
  using cache_key_ignores_headers_and_body[of ex_page1 ex_page1_other]
  by (simp add: ex_page1_def ex_page1_other_def get_users_def getCacheKey_def show_method_def
        JSON_stringify_def json_string_def json_escape_def json_scalar_def show_int_def
        show_nat.simps)

text \<open>
  C10. The chainable method \<open>cache(ttl)\<close> called with a boolean, \<open>false\<close> included, sets
  the cache directive of the request to the number 3600000, which is truthy; called
  with a number it stores that number. A request so marked, whose directive the request
  middleware leaves as it is, is treated as cacheable by the executor: an unexpired
  entry for its key is returned as a copy, and the response of the transport is stored
  with an expiry one hour after the time of the store.
\<close>

theorem cache_method_with_boolean_sets_one_hour:
  fixes s1 :: system
  assumes run: "runMiddlewares (middlewares_request s) (FluidFetchRequest_cache (B b) r)
                  = (cs, Inr q)"
    and keep: "Request.cache q = Request.cache (FluidFetchRequest_cache (B b) r)"
  shows "Request.cache (FluidFetchRequest_cache (B b) r) = Some (N 3600000)
    \<and> truthy (Request.cache (FluidFetchRequest_cache (B b) r))
    \<and> Request.cache (FluidFetchRequest_cache (N n) r) = Some (N n)
    \<and> (cache s (getCacheKey q) = Some entry \<and> now s < expires entry
            \<and> \<not> bodyUsed (response entry) \<longrightarrow>
          calls (executeRequest c (FluidFetchRequest_cache (B b) r) s) c
            = Some (Returned (Inr ((response entry)\<lparr>obj := nextObj s\<rparr>))))
    \<and> (calls s1 c = Some (FetchSettled q k (Inr resp))
          \<and> runMiddlewares (middlewares_response s1) resp = (cs1, Inr p) \<and> \<not> bodyUsed p \<longrightarrow>
            cache (executeRequest_resume c s1) k
              = Some \<lparr>response = p\<lparr>obj := nextObj s1\<rparr>, expires = now s1 + 3600000\<rparr>)"
proof -
  have d: "Request.cache (FluidFetchRequest_cache (B b) r) = Some (N 3600000)"
    by (simp add: FluidFetchRequest_cache_def)
  with keep have dq: "Request.cache q = Some (N 3600000)" by simp
  then have tq: "truthy (Request.cache q)" by simp
  have n: "Request.cache (FluidFetchRequest_cache (N n) r) = Some (N n)"
    by (simp add: FluidFetchRequest_cache_def)
  have hit: "cache s (getCacheKey q) = Some entry \<and> now s < expires entry
            \<and> \<not> bodyUsed (response entry) \<longrightarrow>
          calls (executeRequest c (FluidFetchRequest_cache (B b) r) s) c
            = Some (Returned (Inr ((response entry)\<lparr>obj := nextObj s\<rparr>)))"
  proof (intro impI, elim conjE)
    assume e: "cache s (getCacheKey q) = Some entry" and l: "now s < expires entry"
      and u: "\<not> bodyUsed (response entry)"
    show "calls (executeRequest c (FluidFetchRequest_cache (B b) r) s) c
            = Some (Returned (Inr ((response entry)\<lparr>obj := nextObj s\<rparr>)))"
      using u by (simp add: executeRequest_hit[OF run tq e l] Let_def clone_def)
  qed
  have store: "calls s1 c = Some (FetchSettled q k (Inr resp))
          \<and> runMiddlewares (middlewares_response s1) resp = (cs1, Inr p) \<and> \<not> bodyUsed p \<longrightarrow>
            cache (executeRequest_resume c s1) k
              = Some \<lparr>response = p\<lparr>obj := nextObj s1\<rparr>, expires = now s1 + 3600000\<rparr>"
  proof (intro impI, elim conjE)
    assume c: "calls s1 c = Some (FetchSettled q k (Inr resp))"
      and m: "runMiddlewares (middlewares_response s1) resp = (cs1, Inr p)"
      and u: "\<not> bodyUsed p"
    show "cache (executeRequest_resume c s1) k
              = Some \<lparr>response = p\<lparr>obj := nextObj s1\<rparr>, expires = now s1 + 3600000\<rparr>"
      by (simp add: resume_settled[OF c] processResponse_store[OF m tq u] Let_def cleanup_def
            dq cacheTtl_def)
  qed
  from d n hit store show ?thesis by simp
qed

theorem cache_method_with_boolean_sets_one_hour_witness:
  "runMiddlewares (middlewares_request cf3) (FluidFetchRequest_cache (B False) (get_users 2))
     = ([], Inr (cache_false_users 2))
   \<and> Request.cache (FluidFetchRequest_cache (B False) (get_users 2)) = Some (N 3600000)
   \<and> truthy (Request.cache (FluidFetchRequest_cache (B False) (get_users 2)))
   \<and> Request.cache (FluidFetchRequest_cache (N 5) (get_users 2)) = Some (N 5)
   \<and> calls cf2 0 = Some (FetchSettled (cache_false_users 1) ex_key (Inr ex_response))
   \<and> runMiddlewares (middlewares_response cf2) ex_response = ([], Inr ex_response)
   \<and> \<not> bodyUsed ex_response
   \<and> cache (executeRequest_resume 0 cf2) ex_key
       = Some \<lparr>response = ex_response\<lparr>obj := 1\<rparr>, expires = 3601000\<rparr>
   \<and> cache cf3 (getCacheKey (cache_false_users 2))
       = Some \<lparr>response = ex_response\<lparr>obj := 1\<rparr>, expires = 3601000\<rparr>
   \<and> now cf3 < 3601000
   \<and> calls (executeRequest 1 (FluidFetchRequest_cache (B False) (get_users 2)) cf3) 1
       = Some (Returned (Inr (ex_response\<lparr>obj := 2\<rparr>)))"
proof -
  have run3: "runMiddlewares (middlewares_request cf3)
                (FluidFetchRequest_cache (B False) (get_users 2)) = ([], Inr (cache_false_users 2))"
    by (simp add: cf3_eq cache_false_users_def)
  have run0: "runMiddlewares (middlewares_request (new_FluidFetch 1000))
                (FluidFetchRequest_cache (B False) (get_users 1)) = ([], Inr (cache_false_users 1))"
    by (simp add: new_FluidFetch_def cache_false_users_def)
  have keep: "Request.cache (cache_false_users h)
                = Request.cache (FluidFetchRequest_cache (B False) (get_users h))" for h
    by (simp add: cache_false_users_def)
  show ?thesis
    using run3
      cache_method_with_boolean_sets_one_hour
        [OF run3 keep, where n = 5 and c = 1
           and entry = "\<lparr>response = ex_response\<lparr>obj := 1\<rparr>, expires = 3601000\<rparr>"
           and ?s1.0 = cf2 and k = ex_key and resp = ex_response and ?cs1.0 = "[]"
           and p = ex_response]
      cache_method_with_boolean_sets_one_hour
        [OF run0 keep, where n = 5 and c = 0
           and entry = "\<lparr>response = ex_response\<lparr>obj := 1\<rparr>, expires = 3601000\<rparr>"
           and ?s1.0 = cf2 and k = ex_key and resp = ex_response and ?cs1.0 = "[]"
           and p = ex_response]
    by (simp add: cf3_eq cf2_eq ex_response_def cf3_def[symmetric])
qed

subsection \<open>The request executor\<close>

text \<open>
  C8. When, in the run of the request middleware, the transform of a handler fails
  and that handler has no recovery function, the call is rejected with that failure;
  the transport is not invoked (no \<open>Fetch\<close> event is added to the trace, and the call
  being over, none can follow for it: the steps that belong to it change nothing any
  more); cache store, pending registry, timers and controllers are as before.
\<close>

theorem request_middleware_failure_skips_transport:
  assumes chain: "handlers (middlewares_request s) = pre @ h # post"
    and reach: "runLoop pre r = (cs0, Inr v)"
    and fails: "fulfilled h v = Inl e" and norec: "rejected h = None"
  shows "calls (executeRequest c r s) c = Some (Returned (Inl e))
    \<and> trace (executeRequest c r s)
         = trace s @ map RequestMw (cs0 @ [Fulfilled (handler_id h)])
    \<and> (Fetch c' q \<in> set (trace (executeRequest c r s)) \<longrightarrow> Fetch c' q \<in> set (trace s))
    \<and> cache (executeRequest c r s) = cache s
    \<and> pendingRequests (executeRequest c r s) = pendingRequests s
    \<and> timers (executeRequest c r s) = timers s
    \<and> aborted (executeRequest c r s) = aborted s
    \<and> fetch_settles c outcome (executeRequest c r s) = executeRequest c r s
    \<and> executeRequest_resume c (executeRequest c r s) = executeRequest c r s"
proof -
  have run: "runMiddlewares (middlewares_request s) r = (cs0 @ [Fulfilled (handler_id h)], Inl e)"
    using run_at_handler[OF chain reach] fails norec by (simp add: runHandler_def)
  note eq = executeRequest_mw_failed[OF run, of c]
  have c: "calls (executeRequest c r s) c = Some (Returned (Inl e))" by (simp add: eq)
  have "fetch_settles c outcome (executeRequest c r s) = executeRequest c r s"
    using c by (simp add: fetch_settles_def)
  moreover have "executeRequest_resume c (executeRequest c r s) = executeRequest c r s"
    using c by (simp add: executeRequest_resume_def)
  ultimately show ?thesis using c by (auto simp: eq)
qed

theorem request_middleware_failure_skips_transport_witness:
  "handlers (middlewares_request mw_state) =
     [\<lparr>fulfilled = add_trace_header, rejected = None, handler_id = 0\<rparr>]
       @ \<lparr>fulfilled = throwing, rejected = None, handler_id = 1\<rparr> # []
   \<and> runLoop [\<lparr>fulfilled = add_trace_header, rejected = None, handler_id = 0\<rparr>] (get_users 1)
       = ([Fulfilled 0], Inr ((get_users 1)\<lparr>headers := [(''X-Trace'', ''1'')]\<rparr>))
   \<and> throwing ((get_users 1)\<lparr>headers := [(''X-Trace'', ''1'')]\<rparr>) = Inl (Thrown ''M2'')
   \<and> calls (executeRequest 0 (get_users 1) mw_state) 0 = Some (Returned (Inl (Thrown ''M2'')))
   \<and> trace (executeRequest 0 (get_users 1) mw_state)
       = [RequestMw (Fulfilled 0), RequestMw (Fulfilled 1)]
   \<and> Fetch 0 ((get_users 1)\<lparr>headers := [(''X-Trace'', ''1'')]\<rparr>)
       \<notin> set (trace (executeRequest 0 (get_users 1) mw_state))
   \<and> pendingRequests (executeRequest 0 (get_users 1) mw_state) = Map.empty"
proof -
  have pre: "runLoop [\<lparr>fulfilled = add_trace_header, rejected = None, handler_id = 0\<rparr>]
               (get_users 1)
       = ([Fulfilled 0], Inr ((get_users 1)\<lparr>headers := [(''X-Trace'', ''1'')]\<rparr>))"
    by (simp add: runHandler_def add_trace_header_def get_users_def)
  have fails: "fulfilled \<lparr>fulfilled = throwing, rejected = None, handler_id = 1\<rparr>
                 ((get_users 1)\<lparr>headers := [(''X-Trace'', ''1'')]\<rparr>) = Inl (Thrown ''M2'')"
    by (simp add: throwing_def)
  have norec: "rejected \<lparr>fulfilled = throwing, rejected = None, handler_id = 1\<rparr> = None"
    by simp
  show ?thesis
    using mw_state_handlers pre fails
      request_middleware_failure_skips_transport
        [OF mw_state_handlers pre fails norec, where c = 0 and c' = 0
           and q = "(get_users 1)\<lparr>headers := [(''X-Trace'', ''1'')]\<rparr>"
           and outcome = "Inr (200, ''[]'')"]
    by (simp add: mw_state_def new_FluidFetch_def)
qed

text \<open>
  C4, as the specification states it, does not hold in its part on the miss call. A
  response middleware that reads the body is registered; the request has the cache
  directive \<open>true\<close> and is not served from the cache; the transport delivers a
  response and the middleware returns it with its body read. \<open>clone()\<close> then throws:
  the call is rejected with the \<open>TypeError\<close> and nothing is stored under the key.
\<close>

theorem body_reading_middleware_prevents_store:
  "reachable br2
   \<and> truthy (Request.cache (cached_users 1))
   \<and> calls br2 0 = Some (FetchSettled (cached_users 1) (getCacheKey (cached_users 1))
                            (Inr ex_response))
   \<and> runMiddlewares (middlewares_response br2) ex_response
       = ([Fulfilled 0], Inr (ex_response\<lparr>bodyUsed := True\<rparr>))
   \<and> br3 = executeRequest_resume 0 br2
   \<and> calls br3 0 = Some (Returned (Inl (TypeError ''Response body is already used'')))
   \<and> cache br3 (getCacheKey (cached_users 1)) = None"
proof -
  have "br3 = executeRequest_resume 0 br2" by (simp only: br3_def)
  moreover have "calls br3 0 = Some (Returned (Inl (TypeError ''Response body is already used'')))
      \<and> cache br3 (getCacheKey (cached_users 1)) = None"
    by (simp add: br3_def br2_eq resume_defs runMiddlewares_def runHandler_def read_body_def
          ex_response_def)
  moreover have "runMiddlewares (middlewares_response br2) ex_response
       = ([Fulfilled 0], Inr (ex_response\<lparr>bodyUsed := True\<rparr>))"
    by (simp add: br2_eq runMiddlewares_def runHandler_def read_body_def)
  moreover have "calls br2 0 = Some (FetchSettled (cached_users 1)
                   (getCacheKey (cached_users 1)) (Inr ex_response))"
    by (simp add: br2_eq)
  ultimately show ?thesis using reachable_br2 by simp
qed

text \<open>
  C4, amended. In a reachable state, take a request whose cache directive, after the
  request middleware, is truthy. If the store has an unexpired entry for its key, the
  call returns at once a copy of the stored response, which is a new object and not
  the stored one; nothing but the calls of the request middleware is added to the
  trace (so the transport is not invoked and no response middleware runs), and pending
  registry and cache store are as before. If it is not served from the cache, the
  transport is invoked. And when the transport has delivered a response that the
  response middleware turns into a processed response whose body has not been read,
  the call returns the processed response and a copy of it is stored under the key,
  expiring at the time of the store plus the numeric directive, or plus one hour when
  the directive is not a number.
\<close>

theorem cache_hit_returns_clone_and_miss_stores:
  fixes s1 :: system
  assumes reach: "reachable s"
    and run: "runMiddlewares (middlewares_request s) r = (cs, Inr request)"
    and dir: "truthy (Request.cache request)"
  shows "(cache s (getCacheKey request) = Some entry \<and> now s < expires entry \<longrightarrow>
            calls (executeRequest c r s) c
              = Some (Returned (Inr ((response entry)\<lparr>obj := nextObj s\<rparr>)))
          \<and> obj (response entry) \<noteq> nextObj s
          \<and> trace (executeRequest c r s) = trace s @ map RequestMw cs
          \<and> pendingRequests (executeRequest c r s) = pendingRequests s
          \<and> cache (executeRequest c r s) = cache s)
    \<and> (\<not> cache_hit s request \<longrightarrow> last (trace (executeRequest c r s)) = Fetch c request)
    \<and> (calls s1 c = Some (FetchSettled request (getCacheKey request) (Inr resp))
          \<and> runMiddlewares (middlewares_response s1) resp = (cs1, Inr p) \<and> \<not> bodyUsed p \<longrightarrow>
            calls (executeRequest_resume c s1) c = Some (Returned (Inr p))
          \<and> cache (executeRequest_resume c s1) (getCacheKey request)
              = Some \<lparr>response = p\<lparr>obj := nextObj s1\<rparr>,
                      expires = now s1 + (case Request.cache request of
                                            Some (N n) \<Rightarrow> n | _ \<Rightarrow> 3600000)\<rparr>)"
proof -
  have hit: "cache s (getCacheKey request) = Some entry \<and> now s < expires entry \<longrightarrow>
            calls (executeRequest c r s) c
              = Some (Returned (Inr ((response entry)\<lparr>obj := nextObj s\<rparr>)))
          \<and> obj (response entry) \<noteq> nextObj s
          \<and> trace (executeRequest c r s) = trace s @ map RequestMw cs
          \<and> pendingRequests (executeRequest c r s) = pendingRequests s
          \<and> cache (executeRequest c r s) = cache s"
  proof (intro impI, elim conjE)
    assume e: "cache s (getCacheKey request) = Some entry" and l: "now s < expires entry"
    from cf_reachable[OF reach] e
    have fr: "obj (response entry) < nextObj s" "\<not> bodyUsed (response entry)"
      unfolding cache_fresh_def by blast+
    show "calls (executeRequest c r s) c
              = Some (Returned (Inr ((response entry)\<lparr>obj := nextObj s\<rparr>)))
          \<and> obj (response entry) \<noteq> nextObj s
          \<and> trace (executeRequest c r s) = trace s @ map RequestMw cs
          \<and> pendingRequests (executeRequest c r s) = pendingRequests s
          \<and> cache (executeRequest c r s) = cache s"
      using fr by (simp add: executeRequest_hit[OF run dir e l] Let_def clone_def)
  qed
  have miss: "\<not> cache_hit s request \<longrightarrow> last (trace (executeRequest c r s)) = Fetch c request"
    by (simp add: executeRequest_miss_fields(2)[OF run])
  have store: "calls s1 c = Some (FetchSettled request (getCacheKey request) (Inr resp))
          \<and> runMiddlewares (middlewares_response s1) resp = (cs1, Inr p) \<and> \<not> bodyUsed p \<longrightarrow>
            calls (executeRequest_resume c s1) c = Some (Returned (Inr p))
          \<and> cache (executeRequest_resume c s1) (getCacheKey request)
              = Some \<lparr>response = p\<lparr>obj := nextObj s1\<rparr>,
                      expires = now s1 + (case Request.cache request of
                                            Some (N n) \<Rightarrow> n | _ \<Rightarrow> 3600000)\<rparr>"
  proof (intro impI, elim conjE)
    assume c: "calls s1 c = Some (FetchSettled request (getCacheKey request) (Inr resp))"
      and m: "runMiddlewares (middlewares_response s1) resp = (cs1, Inr p)"
      and b: "\<not> bodyUsed p"
    show "calls (executeRequest_resume c s1) c = Some (Returned (Inr p))
          \<and> cache (executeRequest_resume c s1) (getCacheKey request)
              = Some \<lparr>response = p\<lparr>obj := nextObj s1\<rparr>,
                      expires = now s1 + (case Request.cache request of
                                            Some (N n) \<Rightarrow> n | _ \<Rightarrow> 3600000)\<rparr>"
      by (simp add: resume_settled[OF c] processResponse_store[OF m dir b] Let_def cleanup_def
            cacheTtl_truthy[OF dir])
  qed
  from hit miss store show ?thesis by blast
qed

theorem cache_hit_returns_clone_and_miss_stores_witness:
  "reachable (new_FluidFetch 1000)
   \<and> runMiddlewares (middlewares_request (new_FluidFetch 1000)) (cached_users 1)
       = ([], Inr (cached_users 1))
   \<and> truthy (Request.cache (cached_users 1))
   \<and> \<not> cache_hit (new_FluidFetch 1000) (cached_users 1)
   \<and> last (trace ch1) = Fetch 0 (cached_users 1)
   \<and> calls ch2 0 = Some (FetchSettled (cached_users 1) (getCacheKey (cached_users 1))
                            (Inr ex_response))
   \<and> runMiddlewares (middlewares_response ch2) ex_response = ([], Inr ex_response)
   \<and> \<not> bodyUsed ex_response
   \<and> calls ch3 0 = Some (Returned (Inr ex_response))
   \<and> cache ch3 (getCacheKey (cached_users 1))
       = Some \<lparr>response = ex_response\<lparr>obj := 1\<rparr>, expires = 1000 + 3600000\<rparr>
   \<and> reachable ch4
   \<and> runMiddlewares (middlewares_request ch4) (cached_users 2) = ([], Inr (cached_users 2))
   \<and> cache ch4 (getCacheKey (cached_users 2))
       = Some \<lparr>response = ex_response\<lparr>obj := 1\<rparr>, expires = 3601000\<rparr>
   \<and> now ch4 < 3601000
   \<and> calls (executeRequest 1 (cached_users 2) ch4) 1
       = Some (Returned (Inr (ex_response\<lparr>obj := 2\<rparr>)))
   \<and> trace (executeRequest 1 (cached_users 2) ch4)
       = [Register ex_key 1, Fetch 0 (cached_users 1), Remove ex_key]
   \<and> pendingRequests (executeRequest 1 (cached_users 2) ch4) = pendingRequests ch4"
proof -
  have r0: "reachable (new_FluidFetch 1000)" by (rule r_new)
  have run0: "runMiddlewares (middlewares_request (new_FluidFetch 1000)) (cached_users 1)
       = ([], Inr (cached_users 1))"
    by (simp add: new_FluidFetch_def)
  have run4: "runMiddlewares (middlewares_request ch4) (cached_users 2)
       = ([], Inr (cached_users 2))"
    by (simp add: ch4_eq)
  have dir: "truthy (Request.cache (cached_users h))" for h by simp
  show ?thesis
    using r0 run0 reachable_ch4 run4
      cache_hit_returns_clone_and_miss_stores
        [OF r0 run0 dir, where c = 0 and ?s1.0 = ch2 and resp = ex_response
           and ?cs1.0 = "[]" and p = ex_response
           and entry = "\<lparr>response = ex_response\<lparr>obj := 1\<rparr>, expires = 3601000\<rparr>"]
      cache_hit_returns_clone_and_miss_stores
        [OF reachable_ch4 run4 dir, where c = 1 and ?s1.0 = ch2 and resp = ex_response
           and ?cs1.0 = "[]" and p = ex_response
           and entry = "\<lparr>response = ex_response\<lparr>obj := 1\<rparr>, expires = 3601000\<rparr>"]
    by (simp add: ch4_eq ch2_eq ch1_eq ex_response_def cache_hit_def new_FluidFetch_def
          ch1_def[symmetric] ch3_def[symmetric] ch3_eq)
qed

text \<open>
  C3. A call that waits for the transport in a reachable state, and whose request has
  a timeout that is set and positive, has a timer armed; the executor arms it, when it
  starts the call, for the time of the start plus the timeout. When the time of the
  timer has come and it fires, the controller of the request is aborted with a
  \<open>TimeoutError\<close>, the transport rejects the waiting call with it, and the call,
  once resumed, is rejected with that \<open>TimeoutError\<close>, which is neither the failure
  of a plain cancellation nor one of the transport.
\<close>

theorem timeout_rejects_with_TimeoutError:
  assumes reach: "reachable s"
    and waiting: "calls s c = Some (AwaitingFetch request k)"
    and set: "timeout request = Some t" and pos: "0 < t"
  shows "(runMiddlewares (middlewares_request s0) r = (cs, Inr request)
            \<and> \<not> cache_hit s0 request
          \<longrightarrow> timers (executeRequest c r s0) c = Some (now s0 + t, request))
    \<and> (\<exists>due. timers s c = Some (due, request)
          \<and> (due \<le> now s \<longrightarrow>
                aborted (timer_fires c s) (abortController request)
                  = Some (TimeoutError (timeout_message request))
              \<and> last (trace (timer_fires c s))
                  = Abort (abortController request) (TimeoutError (timeout_message request))
              \<and> calls (timer_fires c s) c
                  = Some (FetchSettled request k (Inl (TimeoutError (timeout_message request))))
              \<and> calls (executeRequest_resume c (timer_fires c s)) c
                  = Some (Returned (Inl (TimeoutError (timeout_message request))))))
    \<and> TimeoutError (timeout_message request) \<noteq> AbortError
    \<and> TimeoutError (timeout_message request) \<noteq> NetworkError m"
proof -
  let ?e = "TimeoutError (timeout_message request)"
  let ?h = "abortController request"
  have arm: "runMiddlewares (middlewares_request s0) r = (cs, Inr request)
            \<and> \<not> cache_hit s0 request
          \<longrightarrow> timers (executeRequest c r s0) c = Some (now s0 + t, request)"
    using set pos by (auto simp: executeRequest_miss_fields(3))
  from wa_reachable[OF reach] waiting set pos
  obtain due where due: "timers s c = Some (due, request)"
    unfolding waiting_armed_def by blast
  from wna_reachable[OF reach] waiting have na: "aborted s ?h = None"
    unfolding waiting_not_aborted_def by blast
  have fire: "due \<le> now s \<longrightarrow>
                aborted (timer_fires c s) ?h = Some ?e
              \<and> last (trace (timer_fires c s)) = Abort ?h ?e
              \<and> calls (timer_fires c s) c = Some (FetchSettled request k (Inl ?e))
              \<and> calls (executeRequest_resume c (timer_fires c s)) c = Some (Returned (Inl ?e))"
  proof
    assume d: "due \<le> now s"
    let ?s0 = "s\<lparr>timers := (timers s)(c := None)\<rparr>"
    have eq: "timer_fires c s = abort ?h ?e ?s0"
      using due d by (simp add: timer_fires_def timeout_callback_def)
    have a: "aborted (timer_fires c s) ?h = Some ?e"
      unfolding eq using na by (simp add: abort_aborted)
    have l: "last (trace (timer_fires c s)) = Abort ?h ?e"
      unfolding eq by simp
    have cl: "calls (timer_fires c s) c = Some (FetchSettled request k (Inl ?e))"
      unfolding eq using na waiting by (simp add: abort_calls reject_waiting_def)
    have "calls (executeRequest_resume c (timer_fires c s)) c = Some (Returned (Inl ?e))"
      using resume_fields(1)[OF cl] by simp
    with a l cl show "aborted (timer_fires c s) ?h = Some ?e
              \<and> last (trace (timer_fires c s)) = Abort ?h ?e
              \<and> calls (timer_fires c s) c = Some (FetchSettled request k (Inl ?e))
              \<and> calls (executeRequest_resume c (timer_fires c s)) c = Some (Returned (Inl ?e))"
      by simp
  qed
  from arm due fire show ?thesis by simp
qed

theorem timeout_rejects_with_TimeoutError_witness:
  "reachable tm2
   \<and> calls tm2 0 = Some (AwaitingFetch timeout_users ex_key)
   \<and> timeout timeout_users = Some 10 \<and> (0::int) < 10
   \<and> runMiddlewares (middlewares_request (new_FluidFetch 1000)) timeout_users
       = ([], Inr timeout_users)
   \<and> \<not> cache_hit (new_FluidFetch 1000) timeout_users
   \<and> timers tm1 0 = Some (1000 + 10, timeout_users)
   \<and> timers tm2 0 = Some (1010, timeout_users) \<and> 1010 \<le> now tm2
   \<and> aborted (timer_fires 0 tm2) (abortController timeout_users)
       = Some (TimeoutError ''Request timed out after 10ms'')
   \<and> calls (timer_fires 0 tm2) 0
       = Some (FetchSettled timeout_users ex_key
                 (Inl (TimeoutError ''Request timed out after 10ms'')))
   \<and> calls (executeRequest_resume 0 (timer_fires 0 tm2)) 0
       = Some (Returned (Inl (TimeoutError ''Request timed out after 10ms'')))"
proof -
  have w: "calls tm2 0 = Some (AwaitingFetch timeout_users ex_key)"
    by (simp add: tm2_eq)
  have t: "timeout timeout_users = Some 10" by simp
  have p: "(0::int) < 10" by simp
  show ?thesis
    using reachable_tm2 w
      timeout_rejects_with_TimeoutError
        [OF reachable_tm2 w t p, where ?s0.0 = "new_FluidFetch 1000" and r = timeout_users
           and cs = "[]" and m = "''x''"]
    by (simp add: tm2_eq timeout_message_users cache_hit_def new_FluidFetch_def
          tm1_def[symmetric] tm1_eq)
qed

text \<open>
  C1, as the specification states it, does not hold. The call 0 is superseded by the
  call 1 for the same key, which registers its own controller; when the call 0 is
  resumed after its rejection, its cleanup deletes the entry of the key although the
  entry holds the controller of the call 1 and not its own, while the call 1 still
  waits for the transport.
\<close>

theorem superseded_cleanup_erases_newer_registration:
  "calls dd2 0 = Some (FetchSettled (get_users 1) ex_key (Inl AbortError))
   \<and> calls dd2 1 = Some (AwaitingFetch (get_users 2) ex_key)
   \<and> pendingRequests dd2 ex_key = Some (abortController (get_users 2))
   \<and> pendingRequests dd2 ex_key \<noteq> Some (abortController (get_users 1))
   \<and> pendingRequests (executeRequest_resume 0 dd2) ex_key = None
   \<and> calls (executeRequest_resume 0 dd2) 1 = Some (AwaitingFetch (get_users 2) ex_key)"
  by (simp add: dd2_eq resume_defs)

text \<open>
  C1, amended. For every call that is resumed after the transport has settled (with a
  response, a failure or an abort), in a reachable state, the cleanup removes the
  entry of the call's cache key from the pending registry, whatever controller that
  entry holds (so also the registration of a newer call for the same key); the entries
  of all other keys are as before, and the call has returned.
\<close>

theorem cleanup_removes_pending_entry_whatever_it_holds:
  assumes reach: "reachable s"
    and settled: "calls s c = Some (FetchSettled request cacheKey outcome)"
  shows "cacheKey = getCacheKey request
    \<and> pendingRequests (executeRequest_resume c s)
         = (pendingRequests s)(getCacheKey request := None)
    \<and> (\<exists>res. calls (executeRequest_resume c s) c = Some (Returned res))"
proof -
  from ck_reachable[OF reach] settled have k: "cacheKey = getCacheKey request"
    unfolding call_key_def by blast
  show ?thesis
    using resume_fields(1,4)[OF settled] k by simp
qed

theorem cleanup_removes_pending_entry_whatever_it_holds_witness:
  "reachable dd2
   \<and> calls dd2 0 = Some (FetchSettled (get_users 1) ex_key (Inl AbortError))
   \<and> ex_key = getCacheKey (get_users 1)
   \<and> pendingRequests dd2 (getCacheKey (get_users 1)) = Some 2
   \<and> pendingRequests (executeRequest_resume 0 dd2)
       = (pendingRequests dd2)(getCacheKey (get_users 1) := None)
   \<and> calls (executeRequest_resume 0 dd2) 0 = Some (Returned (Inl AbortError))"
proof -
  have c: "calls dd2 0 = Some (FetchSettled (get_users 1) ex_key (Inl AbortError))"
    by (simp add: dd2_eq)
  show ?thesis
    using reachable_dd2 c
      cleanup_removes_pending_entry_whatever_it_holds[OF reachable_dd2 c]
    by (simp add: dd2_eq resume_defs)
qed

text \<open>
  C2, as the specification states it, does not hold. The transport of the call 0 has
  delivered a response, and the call 0, which is past \<open>await fetch(...)\<close> and not yet
  at its \<open>finally\<close> block, is still registered in the pending registry. The call 1
  for the same key starts and is not served from the cache: it aborts the controller
  of the call 0 and registers its own. Aborting a controller does nothing to a promise
  of the transport that is settled already: the call 0 is then resumed and returns its
  response, and its caller receives no cancellation failure.
\<close>

theorem duplicate_after_transport_settled_is_not_cancelled:
  "calls dd1s 0 = Some (FetchSettled (get_users 1) ex_key (Inr ex_response))
   \<and> pendingRequests dd1s ex_key = Some (abortController (get_users 1))
   \<and> getCacheKey (get_users 2) = getCacheKey (get_users 1)
   \<and> \<not> cache_hit dd1s (get_users 2)
   \<and> trace dd2s = trace dd1s @ [Abort 1 AbortError, Register ex_key 2, Fetch 1 (get_users 2)]
   \<and> calls (executeRequest_resume 0 dd2s) 0 = Some (Returned (Inr ex_response))
   \<and> calls (executeRequest_resume 0 dd2s) 1 = Some (AwaitingFetch (get_users 2) ex_key)"
  by (simp add: dd2s_eq dd1s_eq resume_defs cache_hit_def)

text \<open>
  C2, amended. In a reachable state let a first call wait for the transport, its
  controller being the one registered for its key, and let a second call for the same
  key start and not be served from the cache. Then the executor aborts the controller
  of the first call and after that registers the controller of the second and invokes
  the transport; the transport of the first call is thereby rejected with the
  cancellation failure, while the second call has not returned; and the first call,
  once resumed, is rejected with the cancellation failure, the second call being where
  it was. (By \<open>settled_stable\<close> no other step changes what the first call does when
  it is resumed.)
\<close>

theorem duplicate_aborts_waiting_call_before_registering:
  assumes reach: "reachable s"
    and first: "calls s a = Some (AwaitingFetch ra k)"
    and registered: "pendingRequests s k = Some (abortController ra)"
    and fresh: "calls s b = None"
    and run: "runMiddlewares (middlewares_request s) rb = (cs, Inr qb)"
    and same: "getCacheKey qb = k"
    and miss: "\<not> cache_hit s qb"
  shows "trace (executeRequest b rb s) = trace s @ map RequestMw cs
           @ [Abort (abortController ra) AbortError, Register k (abortController qb), Fetch b qb]
    \<and> aborted (executeRequest b rb s) (abortController ra) = Some AbortError
    \<and> pendingRequests (executeRequest b rb s) k = Some (abortController qb)
    \<and> calls (executeRequest b rb s) a = Some (FetchSettled ra k (Inl AbortError))
    \<and> calls (executeRequest b rb s) b \<noteq> Some (Returned res)
    \<and> calls (executeRequest_resume a (executeRequest b rb s)) a = Some (Returned (Inl AbortError))
    \<and> calls (executeRequest_resume a (executeRequest b rb s)) b = calls (executeRequest b rb s) b"
proof -
  let ?s' = "executeRequest b rb s"
  let ?ha = "abortController ra"
  from wna_reachable[OF reach] first have na: "aborted s ?ha = None"
    unfolding waiting_not_aborted_def by blast
  from first fresh have ab: "a \<noteq> b" by auto
  note f = executeRequest_miss_fields[OF run miss, where c = b]
  have tr: "trace ?s' = trace s @ map RequestMw cs
           @ [Abort ?ha AbortError, Register k (abortController qb), Fetch b qb]"
    using f(2) registered same by simp
  have ab': "aborted ?s' = (aborted s)(?ha \<mapsto> AbortError)"
    using f(4) registered same na by (simp add: abort_aborted)
  have pr: "pendingRequests ?s' k = Some (abortController qb)"
    using f(1) same by simp
  have ca: "calls ?s' a = Some (FetchSettled ra k (Inl AbortError))"
    using f(6)[OF ab] registered same na first
    by (simp add: abort_calls reject_waiting_def)
  have cb: "calls ?s' b \<noteq> Some (Returned res)"
    using f(5) by (simp split: option.splits)
  have ra: "calls (executeRequest_resume a ?s') = (calls ?s')(a \<mapsto> Returned (Inl AbortError))"
    using resume_fields(1)[OF ca] by simp
  show ?thesis using tr ab' pr ca cb ra ab by simp
qed

theorem duplicate_aborts_waiting_call_before_registering_witness:
  "reachable dd1
   \<and> calls dd1 0 = Some (AwaitingFetch (get_users 1) ex_key)
   \<and> pendingRequests dd1 ex_key = Some (abortController (get_users 1))
   \<and> calls dd1 1 = None
   \<and> runMiddlewares (middlewares_request dd1) (get_users 2) = ([], Inr (get_users 2))
   \<and> getCacheKey (get_users 2) = ex_key
   \<and> \<not> cache_hit dd1 (get_users 2)
   \<and> trace (executeRequest 1 (get_users 2) dd1)
       = trace dd1 @ [Abort 1 AbortError, Register ex_key 2, Fetch 1 (get_users 2)]
   \<and> calls (executeRequest 1 (get_users 2) dd1) 0
       = Some (FetchSettled (get_users 1) ex_key (Inl AbortError))
   \<and> calls (executeRequest 1 (get_users 2) dd1) 1 = Some (AwaitingFetch (get_users 2) ex_key)
   \<and> calls (executeRequest_resume 0 (executeRequest 1 (get_users 2) dd1)) 0
       = Some (Returned (Inl AbortError))
   \<and> calls (executeRequest_resume 0 (executeRequest 1 (get_users 2) dd1)) 1
       = Some (AwaitingFetch (get_users 2) ex_key)"
proof -
  have first: "calls dd1 0 = Some (AwaitingFetch (get_users 1) ex_key)"
    by (simp add: dd1_eq)
  have registered: "pendingRequests dd1 ex_key = Some (abortController (get_users 1))"
    by (simp add: dd1_eq)
  have fresh: "calls dd1 1 = None" by (simp add: dd1_eq)
  have run: "runMiddlewares (middlewares_request dd1) (get_users 2) = ([], Inr (get_users 2))"
    by (simp add: dd1_eq)
  have same: "getCacheKey (get_users 2) = ex_key" by simp
  have miss: "\<not> cache_hit dd1 (get_users 2)" by (simp add: cache_hit_def)
  have e: "executeRequest 1 (get_users 2) dd1 = dd2" by (simp only: dd2_def)
  show ?thesis
    unfolding e
    using reachable_dd1 first registered fresh run miss
      duplicate_aborts_waiting_call_before_registering
        [OF reachable_dd1 first registered fresh run same miss,
         where res = "Inl AbortError", unfolded e]
    by (simp add: dd2_eq resume_defs)
qed

end
